theory Spec2Isabelle
  imports Complex_Main
begin

section \<open>Values, errors and tensors\<close>

text \<open>
  The exceptions the modelled functions can raise. \<open>RuntimeError\<close> is what torch raises on
  mismatched shapes, on \<open>torch.cat\<close> of an empty list and on an out-of-range class in
  \<open>F.one_hot\<close>; \<open>TypeError\<close> is arithmetic on \<open>None\<close>.
\<close>

datatype error = ValueError | KeyError | IndexError | TypeError | RuntimeError

text \<open>
  Log-space tensor entries. Floating point numbers are read as real numbers, extended by
  the one infinite value the routing code produces on purpose, \<open>-inf\<close> (the logarithm of
  a zero probability, for instance \<open>torch.log\<close> of a one-hot encoding). NaN and \<open>+inf\<close>
  are not represented, and rounding is not modelled.
\<close>

datatype logval = NegInf | Fin real

instantiation logval :: linorder
begin

fun less_eq_logval :: "logval \<Rightarrow> logval \<Rightarrow> bool" where
  "less_eq_logval NegInf b = True"
| "less_eq_logval (Fin x) NegInf = False"
| "less_eq_logval (Fin x) (Fin y) = (x \<le> y)"

definition less_logval :: "logval \<Rightarrow> logval \<Rightarrow> bool" where
  "less_logval a b = (a \<le> b \<and> \<not> b \<le> a)"

instance
proof
  fix x y z :: logval
  show "(x < y) = (x \<le> y \<and> \<not> y \<le> x)"
    by (simp add: less_logval_def)
  show "x \<le> x"
    by (cases x) simp_all
  show "x \<le> y \<Longrightarrow> y \<le> z \<Longrightarrow> x \<le> z"
    by (cases x; cases y; cases z) simp_all
  show "x \<le> y \<Longrightarrow> y \<le> x \<Longrightarrow> x = y"
    by (cases x; cases y) simp_all
  show "x \<le> y \<or> y \<le> x"
    by (cases x; cases y) auto
qed

end

text \<open>Addition in log space: \<open>-inf\<close> absorbs every finite value.\<close>

fun ladd :: "logval \<Rightarrow> logval \<Rightarrow> logval" where
  "ladd (Fin x) (Fin y) = Fin (x + y)"
| "ladd a b = NegInf"

text \<open>\<open>torch.exp\<close> and \<open>torch.log\<close> on one entry; \<open>exp(-inf) = 0\<close> and \<open>log(0) = -inf\<close>.
  The logarithm of a negative number is NaN in the source and is outside the model, which
  answers \<open>-inf\<close> there.\<close>

fun lexp :: "logval \<Rightarrow> real" where
  "lexp NegInf = 0"
| "lexp (Fin x) = exp x"

definition llog :: "real \<Rightarrow> logval" where
  "llog x = (if 0 < x then Fin (ln x) else NegInf)"

text \<open>\<open>torch.logsumexp\<close> along one dimension, on the entries of that dimension.\<close>

definition logsumexp :: "logval list \<Rightarrow> logval" where
  "logsumexp xs = llog (sum_list (map lexp xs))"

text \<open>
  Element-wise sum of two tensors of shape \<open>(batch_size,)\<close>. All tensors of one forward
  pass have the length of the batch; torch raises on any other pair of lengths except
  that it broadcasts a one-element tensor, which is not modelled and is an error here.
\<close>

definition tensor_add :: "logval list \<Rightarrow> logval list \<Rightarrow> error + logval list" where
  "tensor_add xs ys =
     (if length xs = length ys then Inr (map2 ladd xs ys) else Inl RuntimeError)"

text \<open>
  \<open>torch.argmax\<close> along one row: the index of the maximal entry, the first one where several
  entries are maximal. The scan keeps the best index and value seen so far and replaces
  them only by a strictly greater entry.
\<close>

fun argmax_from :: "nat \<Rightarrow> logval \<Rightarrow> nat \<Rightarrow> logval list \<Rightarrow> nat" where
  "argmax_from bi bv i [] = bi"
| "argmax_from bi bv i (x # xs) =
     (if bv < x then argmax_from i x (Suc i) xs else argmax_from bi bv (Suc i) xs)"

definition argmax :: "logval list \<Rightarrow> error + nat" where
  "argmax row = (case row of [] \<Rightarrow> Inl IndexError | x # xs \<Rightarrow> Inr (argmax_from 0 x 1 xs))"

section \<open>Nodes and trees\<close>

text \<open>
  Modelled from the spec: the module \<open>node.py\<close> (\<open>Node\<close>, \<open>InternalNode\<close>, \<open>Leaf\<close>,
  \<open>NodeProbabilities\<close>, \<open>create_tree\<close>) is not part of the sources at hand. The spec
  describes an immutable binary tree of internal nodes with exactly two children and of
  leaves, whose nodes are stable references usable as dictionary keys.

  The topology is the datatype \<open>node\<close>. A reference to a node (the Python object's
  identity) is its position: the list of turns from the root, \<open>False\<close> for left and
  \<open>True\<close> for right. The mutable attributes of the leaves live in a store addressed by
  these references.
\<close>

datatype node = Leaf | InternalNode (left: node) (right: node)

type_synonym node_ref = "bool list"

text \<open>Modelled from the spec: the queries \<open>is_leaf\<close> and \<open>is_internal\<close> of a node.\<close>

fun is_leaf :: "node \<Rightarrow> bool" where
  "is_leaf Leaf = True"
| "is_leaf (InternalNode l r) = False"

definition is_internal :: "node \<Rightarrow> bool" where
  "is_internal n = (\<not> is_leaf n)"

text \<open>Modelled from the spec: \<open>root.leaves\<close>, the leaves of the tree below a root, left to
  right, as references from that root.\<close>

fun leaves :: "node \<Rightarrow> node_ref list" where
  "leaves Leaf = [[]]"
| "leaves (InternalNode l r) = map ((#) False) (leaves l) @ map ((#) True) (leaves r)"

text \<open>Modelled from the spec: \<open>root.descendant_internal_nodes\<close>, the internal nodes below
  (and including) a root, in a fixed traversal order (pre-order here).\<close>

fun descendant_internal_nodes :: "node \<Rightarrow> node_ref list" where
  "descendant_internal_nodes Leaf = []"
| "descendant_internal_nodes (InternalNode l r) =
     [] # map ((#) False) (descendant_internal_nodes l)
        @ map ((#) True) (descendant_internal_nodes r)"

text \<open>Modelled from the spec: \<open>root.descendants\<close>, all nodes below (and including) a root.\<close>

fun descendants :: "node \<Rightarrow> node_ref list" where
  "descendants Leaf = [[]]"
| "descendants (InternalNode l r) =
     [] # map ((#) False) (descendants l) @ map ((#) True) (descendants r)"

text \<open>
  Modelled from the spec: \<open>node.ancestors\<close> and \<open>node.is_right_child\<close>. The ancestors of
  a node are listed from the root downwards, the node itself excluded: a leaf of a tree of
  depth \<open>D\<close> has \<open>D\<close> of them. \<open>is_right_child\<close> is the last turn of the
  reference; the spec defines it for every node but the root, where the model answers
  \<open>False\<close>.
\<close>

definition ancestors :: "node_ref \<Rightarrow> node_ref list" where
  "ancestors p = map (\<lambda>k. take k p) [0..<length p]"

definition is_right_child :: "node_ref \<Rightarrow> bool" where
  "is_right_child p = (p \<noteq> [] \<and> last p)"

text \<open>
  Modelled from the spec: \<open>create_tree(depth, num_classes)\<close> builds the perfect binary
  tree of the given depth and fails for a depth below one.
\<close>

fun perfect_tree :: "nat \<Rightarrow> node" where
  "perfect_tree 0 = Leaf"
| "perfect_tree (Suc d) = InternalNode (perfect_tree d) (perfect_tree d)"

definition create_tree :: "nat \<Rightarrow> error + node" where
  "create_tree depth = (if depth < 1 then Inl ValueError else Inr (perfect_tree depth))"

text \<open>Modelled from the spec: the mutable attributes of a \<open>Leaf\<close> object, its parameter
  vector and its update counter.\<close>

record Leaf_state =
  dist_params :: "real list"
  dist_param_update_count :: nat

section \<open>Node probabilities\<close>

text \<open>
  Modelled from the spec: \<open>NodeProbabilities\<close> holds \<open>log_p_arrival\<close> and
  \<open>log_p_right\<close>, both of shape \<open>(batch_size,)\<close>; \<open>log_p_left\<close> is derived as
  \<open>log(1 - exp(log_p_right))\<close>, and a child's arrival is the parent's arrival plus the
  log-probability of the branch taken. \<open>log_p_right\<close> is \<open>None\<close> for a leaf, which the
  source obtains from \<open>dict.get\<close>.
\<close>

record NodeProbabilities =
  log_p_arrival :: "logval list"
  log_p_right :: "logval list option"

text \<open>Modelled from the spec: the derived properties \<open>log_p_left\<close>,
  \<open>log_p_arrival_left\<close>, \<open>log_p_arrival_right\<close> and \<open>batch_size\<close> of
  \<open>NodeProbabilities\<close>; arithmetic on a \<open>log_p_right\<close> that is \<open>None\<close> raises.\<close>

fun log1mexp :: "logval \<Rightarrow> logval" where
  "log1mexp NegInf = Fin 0"
| "log1mexp (Fin x) = llog (1 - exp x)"

definition log_p_left :: "NodeProbabilities \<Rightarrow> error + logval list" where
  "log_p_left probs =
     (case log_p_right probs of
        None \<Rightarrow> Inl TypeError
      | Some r \<Rightarrow> Inr (map log1mexp r))"

definition log_p_arrival_left :: "NodeProbabilities \<Rightarrow> error + logval list" where
  "log_p_arrival_left probs =
     (case log_p_left probs of
        Inl e \<Rightarrow> Inl e
      | Inr l \<Rightarrow> tensor_add (log_p_arrival probs) l)"

definition log_p_arrival_right :: "NodeProbabilities \<Rightarrow> error + logval list" where
  "log_p_arrival_right probs =
     (case log_p_right probs of
        None \<Rightarrow> Inl TypeError
      | Some r \<Rightarrow> tensor_add (log_p_arrival probs) r)"

definition batch_size :: "NodeProbabilities \<Rightarrow> nat" where
  "batch_size probs = length (log_p_arrival probs)"

section \<open>Probability propagation\<close>

text \<open>
  \<open>TreeSection._node_to_probs_from_p_right\<close>. The nested function
  \<open>add_strict_descendants\<close> recurses over the subtree \<open>n\<close> whose reference is \<open>p\<close> and
  threads the dictionary \<open>result\<close> it assigns to.
\<close>

fun add_strict_descendants ::
  "(node_ref \<rightharpoonup> logval list) \<Rightarrow> node \<Rightarrow> node_ref \<Rightarrow> (node_ref \<rightharpoonup> NodeProbabilities)
     \<Rightarrow> error + (node_ref \<rightharpoonup> NodeProbabilities)" where
  "add_strict_descendants node_to_log_p_right Leaf p result = Inr result"
| "add_strict_descendants node_to_log_p_right (InternalNode l r) p result =
     (case result p of
        None \<Rightarrow> Inl KeyError
      | Some n_probs \<Rightarrow>
          (case log_p_arrival_left n_probs of
             Inl e \<Rightarrow> Inl e
           | Inr arrival_left \<Rightarrow>
               (case log_p_arrival_right n_probs of
                  Inl e \<Rightarrow> Inl e
                | Inr arrival_right \<Rightarrow>
                    (case add_strict_descendants node_to_log_p_right l (p @ [False])
                            (result
                               (p @ [False] \<mapsto>
                                  \<lparr>log_p_arrival = arrival_left,
                                   log_p_right = node_to_log_p_right (p @ [False])\<rparr>,
                                p @ [True] \<mapsto>
                                  \<lparr>log_p_arrival = arrival_right,
                                   log_p_right = node_to_log_p_right (p @ [True])\<rparr>)) of
                       Inl e \<Rightarrow> Inl e
                     | Inr result' \<Rightarrow>
                         add_strict_descendants node_to_log_p_right r (p @ [True]) result'))))"

definition node_to_probs_from_p_right ::
  "(node_ref \<rightharpoonup> logval list) \<Rightarrow> node \<Rightarrow> error + (node_ref \<rightharpoonup> NodeProbabilities)" where
  "node_to_probs_from_p_right node_to_log_p_right root_node =
     (case node_to_log_p_right [] of
        None \<Rightarrow> Inl KeyError
      | Some root_log_p_right \<Rightarrow>
          add_strict_descendants node_to_log_p_right root_node []
            [[] \<mapsto> \<lparr>log_p_arrival = map (\<lambda>x. Fin 0) root_log_p_right,
                     log_p_right = Some root_log_p_right\<rparr>])"

section \<open>The tree section\<close>

text \<open>
  \<open>TreeSection\<close>: the tree, the prototype index of every internal node (a dictionary,
  kept with its items in insertion order) and the configuration. \<open>leaf_store\<close> holds the
  attributes of the \<open>Leaf\<close> objects of \<open>tree_root\<close>.
\<close>

record TreeSection =
  num_classes :: nat
  tree_root :: node
  node_to_proto_idx :: "(node_ref \<times> nat) list"
  leaf_pruning_threshold :: real
  leaf_opt_ewma_alpha :: real
  leaf_store :: "node_ref \<Rightarrow> Leaf_state"

text \<open>\<open>TreeSection.__init__\<close>; the initial attributes of the leaves are set by the absent
  \<open>create_tree\<close> and are a parameter here.\<close>

definition TreeSection_init ::
  "nat \<Rightarrow> nat \<Rightarrow> real \<Rightarrow> real \<Rightarrow> (node_ref \<Rightarrow> Leaf_state) \<Rightarrow> error + TreeSection" where
  "TreeSection_init n_classes depth threshold alpha store =
     (case create_tree depth of
        Inl e \<Rightarrow> Inl e
      | Inr t \<Rightarrow>
          Inr \<lparr>num_classes = n_classes,
               tree_root = t,
               node_to_proto_idx = zip (descendant_internal_nodes t)
                                       [0..<length (descendant_internal_nodes t)],
               leaf_pruning_threshold = threshold,
               leaf_opt_ewma_alpha = alpha,
               leaf_store = store\<rparr>)"

text \<open>
  The similarity tensor of shape \<open>(batch_size, num_internal_nodes)\<close> is the list of its
  rows, one per sample. \<open>similarities[:, i]\<close> raises when the column does not exist.
\<close>

definition select_column :: "real list list \<Rightarrow> nat \<Rightarrow> error + real list" where
  "select_column similarities i =
     (if \<forall>row \<in> set similarities. i < length row
      then Inr (map (\<lambda>row. row ! i) similarities)
      else Inl IndexError)"

text \<open>\<open>TreeSection.get_node_to_log_p_right\<close>: the dictionary comprehension, item by item.\<close>

fun node_to_log_p_right_items ::
  "real list list \<Rightarrow> (node_ref \<rightharpoonup> logval list) \<Rightarrow> (node_ref \<times> nat) list
     \<Rightarrow> error + (node_ref \<rightharpoonup> logval list)" where
  "node_to_log_p_right_items similarities acc [] = Inr acc"
| "node_to_log_p_right_items similarities acc ((n, i) # items) =
     (case select_column similarities i of
        Inl e \<Rightarrow> Inl e
      | Inr col \<Rightarrow>
          node_to_log_p_right_items similarities
            (acc(n \<mapsto> map (\<lambda>s. Fin (- s)) col)) items)"

definition get_node_to_log_p_right ::
  "TreeSection \<Rightarrow> real list list \<Rightarrow> error + (node_ref \<rightharpoonup> logval list)" where
  "get_node_to_log_p_right self similarities =
     node_to_log_p_right_items similarities Map.empty (node_to_proto_idx self)"

definition get_node_to_probs ::
  "TreeSection \<Rightarrow> real list list \<Rightarrow> error + (node_ref \<rightharpoonup> NodeProbabilities)" where
  "get_node_to_probs self similarities =
     (case get_node_to_log_p_right self similarities of
        Inl e \<Rightarrow> Inl e
      | Inr node_to_log_p_right \<Rightarrow>
          node_to_probs_from_p_right node_to_log_p_right (tree_root self))"

section \<open>Leaf selection\<close>

text \<open>\<open>-np.log(2)\<close>.\<close>

definition neg_log_2 :: logval where
  "neg_log_2 = Fin (- ln 2)"

text \<open>
  \<open>TreeSection._get_predicting_leaves_greedily\<close> of \<open>proto/models.py\<close>. The
  \<open>while cur_node.is_internal\<close> loop of \<open>get_leaf_for_sample\<close> is the recursion over
  \<open>cur_node\<close>, whose reference is \<open>cur\<close>.
\<close>

fun TreeSection_get_leaf_for_sample ::
  "(node_ref \<rightharpoonup> NodeProbabilities) \<Rightarrow> nat \<Rightarrow> node \<Rightarrow> node_ref \<Rightarrow> error + node_ref" where
  "TreeSection_get_leaf_for_sample node_to_probs sample_idx Leaf cur = Inr cur"
| "TreeSection_get_leaf_for_sample node_to_probs sample_idx (InternalNode l r) cur =
     (case node_to_probs cur of
        None \<Rightarrow> Inl KeyError
      | Some cur_probs \<Rightarrow>
          (case log_p_left cur_probs of
             Inl e \<Rightarrow> Inl e
           | Inr lpl \<Rightarrow>
               if sample_idx < length lpl
               then (if neg_log_2 < lpl ! sample_idx
                     then TreeSection_get_leaf_for_sample node_to_probs sample_idx l (cur @ [False])
                     else TreeSection_get_leaf_for_sample node_to_probs sample_idx r (cur @ [True]))
               else Inl IndexError))"

text \<open>A list comprehension whose body may raise: the first exception ends it.\<close>

fun collect :: "('a \<Rightarrow> error + 'b) \<Rightarrow> 'a list \<Rightarrow> error + 'b list" where
  "collect f [] = Inr []"
| "collect f (x # xs) =
     (case f x of
        Inl e \<Rightarrow> Inl e
      | Inr y \<Rightarrow> (case collect f xs of Inl e \<Rightarrow> Inl e | Inr ys \<Rightarrow> Inr (y # ys)))"

definition TreeSection_get_predicting_leaves_greedily ::
  "node \<Rightarrow> (node_ref \<rightharpoonup> NodeProbabilities) \<Rightarrow> error + node_ref list" where
  "TreeSection_get_predicting_leaves_greedily root_node node_to_probs =
     (case node_to_probs [] of
        None \<Rightarrow> Inl KeyError
      | Some root_probs \<Rightarrow>
          collect (\<lambda>i. TreeSection_get_leaf_for_sample node_to_probs i root_node [])
            [0..<batch_size root_probs])"

text \<open>
  \<open>torch.cat(columns, dim=1)\<close> of tensors of shape \<open>(bs, 1)\<close>: the tensor of shape
  \<open>(bs, n)\<close>, as the list of its rows. It raises on an empty list and on columns of
  different lengths.
\<close>

definition cat_columns :: "logval list list \<Rightarrow> error + logval list list" where
  "cat_columns cols =
     (case cols of
        [] \<Rightarrow> Inl RuntimeError
      | c # cs \<Rightarrow>
          if \<forall>c' \<in> set cs. length c' = length c
          then Inr (map (\<lambda>b. map (\<lambda>col. col ! b) cols) [0..<length c])
          else Inl RuntimeError)"

text \<open>\<open>TreeSection._get_max_p_arrival_leaves\<close> of \<open>proto/models.py\<close>.\<close>

definition TreeSection_get_max_p_arrival_leaves ::
  "node_ref list \<Rightarrow> (node_ref \<rightharpoonup> NodeProbabilities) \<Rightarrow> error + node_ref list" where
  "TreeSection_get_max_p_arrival_leaves leaf_list node_to_probs =
     (case collect (\<lambda>leaf. case node_to_probs leaf of
                             None \<Rightarrow> Inl KeyError
                           | Some probs \<Rightarrow> Inr (log_p_arrival probs)) leaf_list of
        Inl e \<Rightarrow> Inl e
      | Inr log_p_arrivals \<Rightarrow>
          (case cat_columns log_p_arrivals of
             Inl e \<Rightarrow> Inl e
           | Inr rows \<Rightarrow>
               (case collect argmax rows of
                  Inl e \<Rightarrow> Inl e
                | Inr predicting_leaf_idx \<Rightarrow>
                    Inr (map (\<lambda>i. leaf_list ! i) predicting_leaf_idx))))"

text \<open>\<open>TreeSection.get_predicting_leaves\<close> of \<open>proto/models.py\<close>.\<close>

definition TreeSection_get_predicting_leaves ::
  "node \<Rightarrow> (node_ref \<rightharpoonup> NodeProbabilities) \<Rightarrow> string \<Rightarrow> error + node_ref list" where
  "TreeSection_get_predicting_leaves root_node node_to_probs sampling_strategy =
     (if sampling_strategy = ''sample_max''
      then TreeSection_get_max_p_arrival_leaves (leaves root_node) node_to_probs
      else if sampling_strategy = ''greedy''
      then TreeSection_get_predicting_leaves_greedily root_node node_to_probs
      else Inl ValueError)"

text \<open>
  The same three functions as module-level functions of \<open>prototree/models.py\<close>
  (\<open>get_predicting_leaves\<close>, \<open>_get_predicting_leaves_greedily\<close>,
  \<open>_get_max_p_arrival_leaves\<close>), translated from that file.
\<close>

fun prototree_get_leaf_for_sample ::
  "(node_ref \<rightharpoonup> NodeProbabilities) \<Rightarrow> nat \<Rightarrow> node \<Rightarrow> node_ref \<Rightarrow> error + node_ref" where
  "prototree_get_leaf_for_sample node_to_probs sample_idx Leaf cur = Inr cur"
| "prototree_get_leaf_for_sample node_to_probs sample_idx (InternalNode l r) cur =
     (case node_to_probs cur of
        None \<Rightarrow> Inl KeyError
      | Some cur_probs \<Rightarrow>
          (case log_p_left cur_probs of
             Inl e \<Rightarrow> Inl e
           | Inr lpl \<Rightarrow>
               if sample_idx < length lpl
               then (if neg_log_2 < lpl ! sample_idx
                     then prototree_get_leaf_for_sample node_to_probs sample_idx l (cur @ [False])
                     else prototree_get_leaf_for_sample node_to_probs sample_idx r (cur @ [True]))
               else Inl IndexError))"

definition prototree_get_predicting_leaves_greedily ::
  "node \<Rightarrow> (node_ref \<rightharpoonup> NodeProbabilities) \<Rightarrow> error + node_ref list" where
  "prototree_get_predicting_leaves_greedily root_node node_to_probs =
     (case node_to_probs [] of
        None \<Rightarrow> Inl KeyError
      | Some root_probs \<Rightarrow>
          collect (\<lambda>i. prototree_get_leaf_for_sample node_to_probs i root_node [])
            [0..<batch_size root_probs])"

definition prototree_get_max_p_arrival_leaves ::
  "node_ref list \<Rightarrow> (node_ref \<rightharpoonup> NodeProbabilities) \<Rightarrow> error + node_ref list" where
  "prototree_get_max_p_arrival_leaves leaf_list node_to_probs =
     (case collect (\<lambda>leaf. case node_to_probs leaf of
                             None \<Rightarrow> Inl KeyError
                           | Some probs \<Rightarrow> Inr (log_p_arrival probs)) leaf_list of
        Inl e \<Rightarrow> Inl e
      | Inr log_p_arrivals \<Rightarrow>
          (case cat_columns log_p_arrivals of
             Inl e \<Rightarrow> Inl e
           | Inr rows \<Rightarrow>
               (case collect argmax rows of
                  Inl e \<Rightarrow> Inl e
                | Inr predicting_leaf_idx \<Rightarrow>
                    Inr (map (\<lambda>i. leaf_list ! i) predicting_leaf_idx))))"

definition prototree_get_predicting_leaves ::
  "node \<Rightarrow> (node_ref \<rightharpoonup> NodeProbabilities) \<Rightarrow> string \<Rightarrow> error + node_ref list" where
  "prototree_get_predicting_leaves root_node node_to_probs sampling_strategy =
     (if sampling_strategy = ''sample_max''
      then prototree_get_max_p_arrival_leaves (leaves root_node) node_to_probs
      else if sampling_strategy = ''greedy''
      then prototree_get_predicting_leaves_greedily root_node node_to_probs
      else Inl ValueError)"

section \<open>The forward pass\<close>

text \<open>
  The prototype layer and backbone are external: \<open>ProtoBase.forward\<close> yields the
  similarity tensor, \<open>patches\<close> and \<open>distances\<close> the per-image evidence tensors, the latter
  indexed by prototype. A batch \<open>x\<close> is the list of its images.
\<close>

record ('img, 'pt, 'dm) ProtoBase =
  ProtoBase_forward :: "'img list \<Rightarrow> real list list"
  patches :: "'img list \<Rightarrow> 'pt list"
  distances :: "'img list \<Rightarrow> 'dm list list"

record ('img, 'pt, 'dm) ProtoTree =
  proto_base :: "('img, 'pt, 'dm) ProtoBase"
  tree_section :: TreeSection
  training :: bool

text \<open>
  \<open>torch.cat(rows, dim=0)\<close> of tensors of shape \<open>(1, k)\<close>: it raises on an empty list
  and on rows of different lengths. The class of the exception torch raises on an empty
  list has varied between its versions; \<open>RuntimeError\<close> stands for it.
\<close>

definition cat_rows :: "'a list list \<Rightarrow> error + 'a list list" where
  "cat_rows rs =
     (case rs of
        [] \<Rightarrow> Inl RuntimeError
      | r # rest \<Rightarrow>
          if \<forall>r' \<in> set rest. length r' = length r then Inr rs else Inl RuntimeError)"

text \<open>
  \<open>ProtoTree.forward\<close> of \<open>proto/models.py\<close>. Two methods of the absent \<open>node.py\<close> are
  parameters: \<open>y_logits\<close> (\<open>Leaf.y_logits\<close>, a function of the leaf's attributes) and
  \<open>root_forward\<close> (\<open>InternalNode.forward\<close>, the logits of the distributed strategy).
  The \<open>match\<close> on the pair \<open>(self.training, strategy)\<close> is tried case by case.
\<close>

definition ProtoTree_forward ::
  "(Leaf_state \<Rightarrow> logval list)
     \<Rightarrow> (TreeSection \<Rightarrow> (node_ref \<rightharpoonup> NodeProbabilities) \<Rightarrow> logval list list)
     \<Rightarrow> ('img, 'pt, 'dm) ProtoTree \<Rightarrow> 'img list \<Rightarrow> string
     \<Rightarrow> error + (logval list list \<times> (node_ref \<rightharpoonup> NodeProbabilities) \<times> node_ref list option)" where
  "ProtoTree_forward y_logits root_forward self x strategy =
     (let similarities = ProtoBase_forward (proto_base self) x in
      case get_node_to_probs (tree_section self) similarities of
        Inl e \<Rightarrow> Inl e
      | Inr node_to_probs \<Rightarrow>
          if strategy = ''distributed''
          then Inr (root_forward (tree_section self) node_to_probs, node_to_probs, None)
          else if \<not> training self \<and> (strategy = ''sample_max'' \<or> strategy = ''greedy'')
          then (case TreeSection_get_predicting_leaves (tree_root (tree_section self))
                       node_to_probs strategy of
                  Inl e \<Rightarrow> Inl e
                | Inr predicting_leaves \<Rightarrow>
                    (case cat_rows (map (\<lambda>leaf. y_logits (leaf_store (tree_section self) leaf))
                                       predicting_leaves) of
                       Inl e \<Rightarrow> Inl e
                     | Inr logits \<Rightarrow> Inr (logits, node_to_probs, Some predicting_leaves)))
          else Inl ValueError)"

section \<open>Leaf distribution update\<close>

text \<open>
  \<open>F.one_hot(y_true, num_classes)\<close> followed by \<open>torch.log\<close>: entry \<open>0\<close> at the true
  class and \<open>-inf\<close> elsewhere. \<open>F.one_hot\<close> raises on a label outside the classes.
\<close>

definition one_hot :: "nat list \<Rightarrow> nat \<Rightarrow> error + nat list list" where
  "one_hot y_true n =
     (if \<forall>y \<in> set y_true. y < n
      then Inr (map (\<lambda>y. map (\<lambda>c. if c = y then 1 else 0) [0..<n]) y_true)
      else Inl RuntimeError)"

definition log_tensor :: "nat list list \<Rightarrow> logval list list" where
  "log_tensor t = map (map (\<lambda>v. llog (real v))) t"

text \<open>
  \<open>logits.shape\<close> of a tensor given by its rows. The rows of an empty batch do not record
  the class count; every tensor of shape \<open>(0, k)\<close> is the empty list.
\<close>

definition shape :: "'a list list \<Rightarrow> nat \<times> nat" where
  "shape t = (length t, case t of [] \<Rightarrow> 0 | r # rs \<Rightarrow> length r)"

text \<open>
  The broadcast sum \<open>log_p_arrival + leaf_logits + y_true_logits - logits\<close> of shapes
  \<open>(bs, 1)\<close>, \<open>(nc)\<close>, \<open>(bs, nc)\<close> and \<open>(bs, nc)\<close>, as the list of its \<open>bs\<close> rows; shapes
  that do not agree raise.
\<close>

definition log_update_terms ::
  "logval list \<Rightarrow> logval list \<Rightarrow> logval list list \<Rightarrow> real list list \<Rightarrow> error + logval list list" where
  "log_update_terms arrival leaf_logits y_true_logits logits =
     (if length y_true_logits = length arrival \<and> length logits = length arrival
         \<and> (\<forall>row \<in> set y_true_logits. length row = length leaf_logits)
         \<and> (\<forall>row \<in> set logits. length row = length leaf_logits)
      then Inr (map (\<lambda>b. map (\<lambda>c. ladd (ladd (ladd (arrival ! b) (leaf_logits ! c))
                                            (y_true_logits ! b ! c))
                                      (Fin (- (logits ! b ! c))))
                          [0..<length leaf_logits])
                  [0..<length arrival])
      else Inl RuntimeError)"

text \<open>\<open>torch.logsumexp(t, dim=0)\<close> of a tensor with \<open>nc\<close> columns, given by its rows.\<close>

definition logsumexp_dim0 :: "nat \<Rightarrow> logval list list \<Rightarrow> logval list" where
  "logsumexp_dim0 nc t = map (\<lambda>c. logsumexp (map (\<lambda>row. row ! c) t)) [0..<nc]"

text \<open>
  \<open>dist_update\<close> of \<open>TreeSection._update_leaf_distribution\<close>: the exponentiated
  log-sum-exp over the batch.
\<close>

definition dist_update_vector ::
  "logval list \<Rightarrow> logval list \<Rightarrow> logval list list \<Rightarrow> real list list \<Rightarrow> error + real list" where
  "dist_update_vector arrival leaf_logits y_true_logits logits =
     (case log_update_terms arrival leaf_logits y_true_logits logits of
        Inl e \<Rightarrow> Inl e
      | Inr terms \<Rightarrow> Inr (map lexp (logsumexp_dim0 (length leaf_logits) terms)))"

text \<open>
  The in-place part of \<open>TreeSection._update_leaf_distribution\<close>, on the attributes of the
  leaf: the counter is incremented, \<open>count_alpha = 1 / count\<close>,
  \<open>alpha = max(count_alpha, self.leaf_opt_ewma_alpha)\<close>, then
  \<open>dist_params.mul_(1.0 - alpha)\<close> and \<open>dist_params.add_(dist_update)\<close>.
\<close>

definition apply_dist_update :: "real \<Rightarrow> Leaf_state \<Rightarrow> real list \<Rightarrow> Leaf_state" where
  "apply_dist_update leaf_opt_alpha st dist_update =
     (let update_count = dist_param_update_count st + 1;
          count_alpha = 1 / real update_count;
          alpha = max count_alpha leaf_opt_alpha;
          scaled = map (\<lambda>p. p * (1 - alpha)) (dist_params st)
      in \<lparr>dist_params = map2 (+) scaled dist_update,
          dist_param_update_count = update_count\<rparr>)"

text \<open>
  \<open>TreeSection._update_leaf_distribution\<close>. The leaf is mutated in place: the model
  returns the section with the leaf's entry of the store replaced. \<open>add_\<close> raises when the
  update vector does not have the length of the parameters.
\<close>

definition update_leaf_distribution ::
  "(Leaf_state \<Rightarrow> logval list) \<Rightarrow> TreeSection \<Rightarrow> node_ref
     \<Rightarrow> (node_ref \<rightharpoonup> NodeProbabilities) \<Rightarrow> real list list \<Rightarrow> logval list list
     \<Rightarrow> error + TreeSection" where
  "update_leaf_distribution y_logits self lf node_to_prob logits y_true_logits =
     (case node_to_prob lf of
        None \<Rightarrow> Inl KeyError
      | Some probs \<Rightarrow>
          (let st = leaf_store self lf;
               leaf_logits = y_logits st
           in case dist_update_vector (log_p_arrival probs) leaf_logits y_true_logits logits of
                Inl e \<Rightarrow> Inl e
              | Inr dist_update \<Rightarrow>
                  if length dist_update = length (dist_params st)
                  then Inr (self\<lparr>leaf_store := (leaf_store self)
                              (lf := apply_dist_update (leaf_opt_ewma_alpha self) st dist_update)\<rparr>)
                  else Inl RuntimeError))"

text \<open>The loop \<open>for leaf in self.leaves\<close> of \<open>TreeSection.update_leaf_distributions\<close>.\<close>

fun update_leaves_loop ::
  "(Leaf_state \<Rightarrow> logval list) \<Rightarrow> TreeSection \<Rightarrow> node_ref list
     \<Rightarrow> (node_ref \<rightharpoonup> NodeProbabilities) \<Rightarrow> real list list \<Rightarrow> logval list list
     \<Rightarrow> error + TreeSection" where
  "update_leaves_loop y_logits self [] node_to_prob logits y_true_logits = Inr self"
| "update_leaves_loop y_logits self (lf # rest) node_to_prob logits y_true_logits =
     (case update_leaf_distribution y_logits self lf node_to_prob logits y_true_logits of
        Inl e \<Rightarrow> Inl e
      | Inr self' \<Rightarrow> update_leaves_loop y_logits self' rest node_to_prob logits y_true_logits)"

definition update_leaf_distributions ::
  "(Leaf_state \<Rightarrow> logval list) \<Rightarrow> TreeSection \<Rightarrow> nat list \<Rightarrow> real list list
     \<Rightarrow> (node_ref \<rightharpoonup> NodeProbabilities) \<Rightarrow> error + TreeSection" where
  "update_leaf_distributions y_logits self y_true logits node_to_prob =
     (case shape logits of
        (bs, n_classes) \<Rightarrow>
          (case one_hot y_true n_classes of
             Inl e \<Rightarrow> Inl e
           | Inr y_true_one_hot \<Rightarrow>
               update_leaves_loop y_logits self (leaves (tree_root self)) node_to_prob logits
                 (log_tensor y_true_one_hot)))"

text \<open>
  The update rule in the words of the specification, for comparison with the code:
  \<open>dist_params \<leftarrow> dist_params \<sqdot> (1 - alpha) + update_vector \<sqdot> alpha\<close> with
  \<open>alpha = max(1 / update_count, fixed_ewma_alpha)\<close>.
\<close>

definition spec_ewma_rule :: "real \<Rightarrow> nat \<Rightarrow> real list \<Rightarrow> real list \<Rightarrow> real list" where
  "spec_ewma_rule fixed_ewma_alpha update_count params update_vector =
     (let alpha = max (1 / real update_count) fixed_ewma_alpha
      in map2 (\<lambda>p u. p * (1 - alpha) + u * alpha) params update_vector)"

section \<open>The greedy walk in the words of the specification\<close>

text \<open>
  A walk from a node to a leaf that decides at every internal node from \<open>log_p_right\<close> of
  the sample alone: right where \<open>go_right\<close> holds of it, left otherwise. The
  specification's rule is \<open>go_right v = (-log 2 < v)\<close>.
\<close>

fun threshold_walk ::
  "(logval \<Rightarrow> bool) \<Rightarrow> (node_ref \<rightharpoonup> NodeProbabilities) \<Rightarrow> nat \<Rightarrow> node \<Rightarrow> node_ref
     \<Rightarrow> error + node_ref" where
  "threshold_walk go_right node_to_probs sample_idx Leaf cur = Inr cur"
| "threshold_walk go_right node_to_probs sample_idx (InternalNode l r) cur =
     (case node_to_probs cur of
        None \<Rightarrow> Inl KeyError
      | Some cur_probs \<Rightarrow>
          (case log_p_right cur_probs of
             None \<Rightarrow> Inl TypeError
           | Some lpr \<Rightarrow>
               if sample_idx < length lpr
               then (if go_right (lpr ! sample_idx)
                     then threshold_walk go_right node_to_probs sample_idx r (cur @ [True])
                     else threshold_walk go_right node_to_probs sample_idx l (cur @ [False]))
               else Inl IndexError))"

definition spec_go_right :: "logval \<Rightarrow> bool" where
  "spec_go_right v = (neg_log_2 < v)"

text \<open>The rule with the tie \<open>log_p_right = -log 2\<close> on the right-hand side.\<close>

definition code_go_right :: "logval \<Rightarrow> bool" where
  "code_go_right v = (neg_log_2 \<le> v)"

section \<open>Rationalization\<close>

text \<open>
  Modelled from the spec: \<open>img_similarity.py\<close> is not part of the sources at hand. An
  \<open>ImageProtoSimilarity\<close> associates an internal node's prototype with an image and its
  best-matching patch; \<open>img_proto_similarity\<close> builds it from the node, the image, the
  node's distance map and the image's patches. The search for the best patch is the
  parameter \<open>best_patch\<close>.
\<close>

record 'ev ImageProtoSimilarity =
  internal_node :: node_ref
  evidence :: 'ev

definition img_proto_similarity ::
  "('img \<Rightarrow> 'dm \<Rightarrow> 'pt \<Rightarrow> 'ev) \<Rightarrow> node_ref \<Rightarrow> 'img \<Rightarrow> 'dm \<Rightarrow> 'pt \<Rightarrow> 'ev ImageProtoSimilarity" where
  "img_proto_similarity best_patch n x_i node_distances patches_i =
     \<lparr>internal_node = n, evidence = best_patch x_i node_distances patches_i\<rparr>"

text \<open>\<open>LeafRationalization\<close> of \<open>proto/models.py\<close> and its property \<open>proto_presents\<close>.\<close>

record 'ev LeafRationalization =
  ancestor_similarities :: "'ev ImageProtoSimilarity list"
  leaf :: node_ref

definition proto_presents :: "'ev LeafRationalization \<Rightarrow> bool list" where
  "proto_presents self =
     (let internal_children = map internal_node (drop 1 (ancestor_similarities self));
          leaf_single_list = [leaf self];
          ancestor_children = internal_children @ leaf_single_list
      in map is_right_child ancestor_children)"

text \<open>
  The body of the inner loop, shared by both versions of \<open>rationalize\<close>: the prototype
  index of the ancestor (a dictionary lookup; the items of a dictionary have distinct
  keys), its distance map \<open>dists_i[node_proto_idx, :, :]\<close> and the similarity.
\<close>

definition ancestor_similarity ::
  "('img \<Rightarrow> 'dm \<Rightarrow> 'pt \<Rightarrow> 'ev) \<Rightarrow> TreeSection \<Rightarrow> 'img \<Rightarrow> 'dm list \<Rightarrow> 'pt \<Rightarrow> node_ref
     \<Rightarrow> error + 'ev ImageProtoSimilarity" where
  "ancestor_similarity best_patch ts x_i dists_i patches_i leaf_ancestor =
     (case map_of (node_to_proto_idx ts) leaf_ancestor of
        None \<Rightarrow> Inl KeyError
      | Some node_proto_idx \<Rightarrow>
          if node_proto_idx < length dists_i
          then Inr (img_proto_similarity best_patch leaf_ancestor x_i
                      (dists_i ! node_proto_idx) patches_i)
          else Inl IndexError)"

text \<open>
  \<open>ProtoTree.rationalize\<close> of \<open>proto/models.py\<close>: the outer loop over
  \<open>zip(x, predicting_leaves, dists, patches)\<close> appends one rationalization per tuple,
  after the inner loop over the leaf's ancestors has collected the similarities.
\<close>

definition ProtoTree_rationalize ::
  "('img \<Rightarrow> 'dm \<Rightarrow> 'pt \<Rightarrow> 'ev) \<Rightarrow> ('img, 'pt, 'dm) ProtoTree \<Rightarrow> 'img list \<Rightarrow> node_ref list
     \<Rightarrow> error + 'ev LeafRationalization list" where
  "ProtoTree_rationalize best_patch self x predicting_leaves =
     (let pts = patches (proto_base self) x;
          dists = distances (proto_base self) x
      in collect
           (\<lambda>(x_i, predicting_leaf, dists_i, patches_i).
              case collect (ancestor_similarity best_patch (tree_section self) x_i dists_i patches_i)
                     (ancestors predicting_leaf) of
                Inl e \<Rightarrow> Inl e
              | Inr sims \<Rightarrow> Inr \<lparr>ancestor_similarities = sims, leaf = predicting_leaf\<rparr>)
           (zip x (zip predicting_leaves (zip dists pts))))"

text \<open>
  \<open>ProtoTree.rationalize\<close> of \<open>prototree/models.py\<close>. Here the construction of the
  \<open>LeafRationalization\<close> and the \<open>append\<close> to \<open>rationalizations\<close> stand inside the inner
  loop, and every rationalization built for one leaf holds the same list object
  \<open>ancestor_similarities\<close>, which the loop keeps appending to. The list objects live in a
  heap (a list of lists, a reference being an index); a rationalization holds a reference.
  \<open>predicted_label\<close> (\<open>Leaf.predicted_label\<close>) is a parameter. The class of this file
  holds \<open>node_to_proto_idx\<close> and the prototype layer itself; they are passed as the section
  and the base.
\<close>

record prototree_LeafRationalization =
  ancestor_similarities_ref :: nat
  label :: nat

fun prototree_rationalize_inner ::
  "('img \<Rightarrow> 'dm \<Rightarrow> 'pt \<Rightarrow> 'ev) \<Rightarrow> (Leaf_state \<Rightarrow> nat) \<Rightarrow> TreeSection
     \<Rightarrow> 'img \<Rightarrow> node_ref \<Rightarrow> 'dm list \<Rightarrow> 'pt \<Rightarrow> nat \<Rightarrow> node_ref list
     \<Rightarrow> 'ev ImageProtoSimilarity list list \<times> prototree_LeafRationalization list
     \<Rightarrow> error + ('ev ImageProtoSimilarity list list \<times> prototree_LeafRationalization list)" where
  "prototree_rationalize_inner best_patch predicted_label ts x_i predicting_leaf dists_i patches_i
       ref [] (heap, rationalizations) = Inr (heap, rationalizations)"
| "prototree_rationalize_inner best_patch predicted_label ts x_i predicting_leaf dists_i patches_i
       ref (leaf_ancestor # rest) (heap, rationalizations) =
     (case ancestor_similarity best_patch ts x_i dists_i patches_i leaf_ancestor of
        Inl e \<Rightarrow> Inl e
      | Inr similarity \<Rightarrow>
          prototree_rationalize_inner best_patch predicted_label ts x_i predicting_leaf
            dists_i patches_i ref rest
            (heap[ref := heap ! ref @ [similarity]],
             rationalizations @
               [\<lparr>ancestor_similarities_ref = ref,
                 label = predicted_label (leaf_store ts predicting_leaf)\<rparr>]))"

fun prototree_rationalize_outer ::
  "('img \<Rightarrow> 'dm \<Rightarrow> 'pt \<Rightarrow> 'ev) \<Rightarrow> (Leaf_state \<Rightarrow> nat) \<Rightarrow> TreeSection
     \<Rightarrow> ('img \<times> node_ref \<times> 'dm list \<times> 'pt) list
     \<Rightarrow> 'ev ImageProtoSimilarity list list \<times> prototree_LeafRationalization list
     \<Rightarrow> error + ('ev ImageProtoSimilarity list list \<times> prototree_LeafRationalization list)" where
  "prototree_rationalize_outer best_patch predicted_label ts [] (heap, rationalizations) =
     Inr (heap, rationalizations)"
| "prototree_rationalize_outer best_patch predicted_label ts
       ((x_i, predicting_leaf, dists_i, patches_i) # rest) (heap, rationalizations) =
     (case prototree_rationalize_inner best_patch predicted_label ts x_i predicting_leaf
             dists_i patches_i (length heap) (ancestors predicting_leaf)
             (heap @ [[]], rationalizations) of
        Inl e \<Rightarrow> Inl e
      | Inr state \<Rightarrow> prototree_rationalize_outer best_patch predicted_label ts rest state)"

text \<open>
  The returned list as the caller reads it: every rationalization with the final contents
  of the list object it refers to.
\<close>

definition prototree_rationalize ::
  "('img \<Rightarrow> 'dm \<Rightarrow> 'pt \<Rightarrow> 'ev) \<Rightarrow> (Leaf_state \<Rightarrow> nat) \<Rightarrow> ('img, 'pt, 'dm) ProtoBase
     \<Rightarrow> TreeSection \<Rightarrow> 'img list \<Rightarrow> node_ref list
     \<Rightarrow> error + ('ev ImageProtoSimilarity list \<times> nat) list" where
  "prototree_rationalize best_patch predicted_label base ts x predicting_leaves =
     (let pts = patches base x;
          dists = distances base x
      in case prototree_rationalize_outer best_patch predicted_label ts
                (zip x (zip predicting_leaves (zip dists pts))) ([], []) of
           Inl e \<Rightarrow> Inl e
         | Inr (heap, rationalizations) \<Rightarrow>
             Inr (map (\<lambda>r. (heap ! ancestor_similarities_ref r, label r)) rationalizations))"

section \<open>Reading a node-probability dictionary\<close>

text \<open>\<open>node_to_probs[n].log_p_arrival[b]\<close>, the arrival log-probability of sample \<open>b\<close> at a
  node that has an entry.\<close>

definition arrival_at :: "(node_ref \<rightharpoonup> NodeProbabilities) \<Rightarrow> node_ref \<Rightarrow> nat \<Rightarrow> logval" where
  "arrival_at node_to_probs n b =
     (case node_to_probs n of None \<Rightarrow> NegInf | Some probs \<Rightarrow> log_p_arrival probs ! b)"

section \<open>Well-formed sections and similarity tensors\<close>

text \<open>
  What \<open>TreeSection.__init__\<close> establishes: the root is an internal node and
  \<open>node_to_proto_idx\<close> enumerates the internal nodes. A similarity tensor fits the section
  when every row has one entry per prototype (the contract of the external prototype
  layer).
\<close>

definition section_ok :: "TreeSection \<Rightarrow> bool" where
  "section_ok ts =
     (is_internal (tree_root ts)
      \<and> node_to_proto_idx ts =
          zip (descendant_internal_nodes (tree_root ts))
              [0..<length (descendant_internal_nodes (tree_root ts))])"

definition similarities_ok :: "TreeSection \<Rightarrow> real list list \<Rightarrow> bool" where
  "similarities_ok ts similarities =
     (\<forall>row \<in> set similarities. length row = length (node_to_proto_idx ts))"

text \<open>The leaf \<open>lf\<close> has maximal arrival for sample \<open>b\<close> and is the first such leaf.\<close>

definition first_max_leaf ::
  "node \<Rightarrow> (node_ref \<rightharpoonup> NodeProbabilities) \<Rightarrow> nat \<Rightarrow> node_ref \<Rightarrow> bool" where
  "first_max_leaf root_node node_to_probs b lf =
     (\<exists>k<length (leaves root_node). lf = leaves root_node ! k
        \<and> (\<forall>j<length (leaves root_node).
               arrival_at node_to_probs (leaves root_node ! j) b
                 \<le> arrival_at node_to_probs (leaves root_node ! k) b)
        \<and> (\<forall>j<k. arrival_at node_to_probs (leaves root_node ! j) b
                 < arrival_at node_to_probs (leaves root_node ! k) b))"

section \<open>A depth-one model for concrete evaluations\<close>

text \<open>
  A section over the tree of depth one (one prototype, two leaves), and a model around it
  whose images are real numbers and whose prototype layer returns the image itself as its
  similarity to the one prototype. \<open>example_y_logits\<close> reads a leaf's parameters as its
  logits.
\<close>

definition example_section :: TreeSection where
  "example_section =
     \<lparr>num_classes = 2,
      tree_root = InternalNode Leaf Leaf,
      node_to_proto_idx = [([], 0)],
      leaf_pruning_threshold = 0,
      leaf_opt_ewma_alpha = 1 / 10,
      leaf_store = (\<lambda>lf. \<lparr>dist_params = (if lf = [True] then [0, 1] else [1, 0]),
                           dist_param_update_count = 1\<rparr>)\<rparr>"

definition example_model :: "bool \<Rightarrow> (real, unit, unit) ProtoTree" where
  "example_model training_mode =
     \<lparr>proto_base = \<lparr>ProtoBase_forward = map (\<lambda>img. [img]),
                    patches = map (\<lambda>img. ()),
                    distances = map (\<lambda>img. [()])\<rparr>,
      tree_section = example_section,
      training = training_mode\<rparr>"

definition example_y_logits :: "Leaf_state \<Rightarrow> logval list" where
  "example_y_logits st = map Fin (dist_params st)"

definition example_root_forward ::
  "TreeSection \<Rightarrow> (node_ref \<rightharpoonup> NodeProbabilities) \<Rightarrow> logval list list" where
  "example_root_forward ts node_to_probs = []"

text \<open>
  Node probabilities of a one-sample batch that is routed to the right leaf with
  probability one: the left leaf receives no arrival mass.
\<close>

definition example_node_to_prob :: "node_ref \<rightharpoonup> NodeProbabilities" where
  "example_node_to_prob =
     [[] \<mapsto> \<lparr>log_p_arrival = [Fin 0], log_p_right = Some [Fin 0]\<rparr>,
      [False] \<mapsto> \<lparr>log_p_arrival = [NegInf], log_p_right = None\<rparr>,
      [True] \<mapsto> \<lparr>log_p_arrival = [Fin 0], log_p_right = None\<rparr>]"

section \<open>A depth-two model for concrete evaluations\<close>

text \<open>
  A section over the perfect tree of depth two (three prototypes, four leaves). The images
  of the model are natural numbers; the distance map of image \<open>img\<close> for prototype \<open>k\<close> is
  the number \<open>img + 10 + k\<close>, and \<open>example_best_patch\<close> returns the distance map as the
  evidence, so that an evidence entry shows the prototype it was computed for.
\<close>

definition depth_two_section :: TreeSection where
  "depth_two_section =
     \<lparr>num_classes = 2,
      tree_root = InternalNode (InternalNode Leaf Leaf) (InternalNode Leaf Leaf),
      node_to_proto_idx = [([], 0), ([False], 1), ([True], 2)],
      leaf_pruning_threshold = 0,
      leaf_opt_ewma_alpha = 1 / 10,
      leaf_store = (\<lambda>lf. \<lparr>dist_params = [1, 0], dist_param_update_count = 0\<rparr>)\<rparr>"

definition depth_two_model :: "(nat, unit, nat) ProtoTree" where
  "depth_two_model =
     \<lparr>proto_base = \<lparr>ProtoBase_forward = map (\<lambda>img. [0, 0, 0]),
                    patches = map (\<lambda>img. ()),
                    distances = map (\<lambda>img. [img + 10, img + 11, img + 12])\<rparr>,
      tree_section = depth_two_section,
      training = False\<rparr>"

definition example_best_patch :: "nat \<Rightarrow> nat \<Rightarrow> unit \<Rightarrow> nat" where
  "example_best_patch x_i node_distances patches_i = node_distances"

definition example_predicted_label :: "Leaf_state \<Rightarrow> nat" where
  "example_predicted_label st = 0"

section \<open>The two copies of the leaf selection\<close>

lemma get_leaf_for_sample_copies:
  "prototree_get_leaf_for_sample ntp i t cur = TreeSection_get_leaf_for_sample ntp i t cur"
  by (induction t arbitrary: cur) (simp_all split: option.splits sum.splits)

lemma greedily_copies:
  "prototree_get_predicting_leaves_greedily t ntp
     = TreeSection_get_predicting_leaves_greedily t ntp"
  by (simp add: prototree_get_predicting_leaves_greedily_def
      TreeSection_get_predicting_leaves_greedily_def get_leaf_for_sample_copies
      split: option.splits)

lemma max_p_arrival_copies:
  "prototree_get_max_p_arrival_leaves ls ntp = TreeSection_get_max_p_arrival_leaves ls ntp"
  by (simp add: prototree_get_max_p_arrival_leaves_def TreeSection_get_max_p_arrival_leaves_def)

text \<open>
  C10. The module-level function \<open>get_predicting_leaves\<close> of \<open>prototree/models.py\<close> and
  the static method \<open>TreeSection.get_predicting_leaves\<close> of \<open>proto/models.py\<close> return the
  same list of leaves, and raise the same exception, for every root, every node-probability
  dictionary and every strategy name.
\<close>

theorem get_predicting_leaves_copies_equal:
  "prototree_get_predicting_leaves root_node node_to_probs sampling_strategy
     = TreeSection_get_predicting_leaves root_node node_to_probs sampling_strategy"
  by (simp add: prototree_get_predicting_leaves_def TreeSection_get_predicting_leaves_def
      greedily_copies max_p_arrival_copies)

theorem get_predicting_leaves_copies_equal_witness:
  "prototree_get_predicting_leaves (InternalNode Leaf Leaf)
     [[] \<mapsto> \<lparr>log_p_arrival = [Fin 0], log_p_right = Some [Fin (- 1)]\<rparr>,
      [False] \<mapsto> \<lparr>log_p_arrival = [Fin (- 2)], log_p_right = None\<rparr>,
      [True] \<mapsto> \<lparr>log_p_arrival = [Fin (- 1)], log_p_right = None\<rparr>] ''sample_max''
   = Inr [[True]]
   \<and> TreeSection_get_predicting_leaves (InternalNode Leaf Leaf)
     [[] \<mapsto> \<lparr>log_p_arrival = [Fin 0], log_p_right = Some [Fin (- 1)]\<rparr>,
      [False] \<mapsto> \<lparr>log_p_arrival = [Fin (- 2)], log_p_right = None\<rparr>,
      [True] \<mapsto> \<lparr>log_p_arrival = [Fin (- 1)], log_p_right = None\<rparr>] ''sample_max''
   = Inr [[True]]"
  using get_predicting_leaves_copies_equal [of "InternalNode Leaf Leaf"
     "[[] \<mapsto> \<lparr>log_p_arrival = [Fin 0], log_p_right = Some [Fin (- 1)]\<rparr>,
      [False] \<mapsto> \<lparr>log_p_arrival = [Fin (- 2)], log_p_right = None\<rparr>,
      [True] \<mapsto> \<lparr>log_p_arrival = [Fin (- 1)], log_p_right = None\<rparr>]" "''sample_max''"]
  by (simp add: TreeSection_get_predicting_leaves_def TreeSection_get_max_p_arrival_leaves_def
      cat_columns_def argmax_def less_logval_def)

section \<open>The greedy strategy\<close>

lemma ln2_pos: "0 < ln (2::real)"
  by simp

text \<open>The code's test \<open>log_p_left > -log 2\<close>, read on \<open>log_p_right\<close>.\<close>

lemma go_left_iff: "neg_log_2 < log1mexp v \<longleftrightarrow> \<not> code_go_right v"
proof (cases v)
  case NegInf
  then show ?thesis by (simp add: neg_log_2_def code_go_right_def less_logval_def)
next
  case (Fin x)
  show ?thesis
  proof (cases "x < 0")
    case True
    then have pos: "0 < 1 - exp x" by simp
    have "- ln 2 < ln (1 - exp x) \<longleftrightarrow> ln (1/2) < ln (1 - exp x)"
      by (simp add: ln_div)
    also have "\<dots> \<longleftrightarrow> 1/2 < 1 - exp x" using pos by simp
    also have "\<dots> \<longleftrightarrow> exp x < 1/2" by auto
    also have "\<dots> \<longleftrightarrow> exp x < exp (ln (1/2))" by simp
    also have "\<dots> \<longleftrightarrow> x < ln (1/2)" by (simp only: exp_less_cancel_iff)
    also have "\<dots> \<longleftrightarrow> x < - ln 2" by (simp add: ln_div)
    finally show ?thesis using Fin pos
      by (auto simp add: neg_log_2_def code_go_right_def less_logval_def llog_def)
  next
    case False
    then have "\<not> 0 < 1 - exp x" by simp
    moreover have "- ln 2 \<le> x" using False ln2_pos by linarith
    ultimately show ?thesis using Fin
      by (simp add: neg_log_2_def code_go_right_def less_logval_def llog_def)
  qed
qed

lemma walk_is_threshold_walk:
  "TreeSection_get_leaf_for_sample ntp i t cur = threshold_walk code_go_right ntp i t cur"
  by (induction t arbitrary: cur)
     (simp_all add: log_p_left_def go_left_iff split: option.splits sum.splits)

text \<open>
  C3, as the code has it. Under the greedy strategy, in both files, the walk of every sample
  of the batch starts at the root, decides at each internal node from that node's
  \<open>log_p_right\<close> for the sample alone, and ends at the first leaf reached. It goes to the
  right child if \<open>log_p_right \<ge> -log 2\<close> (\<open>p_right \<ge> 0.5\<close>, the tie included) and to the
  left child otherwise: the code tests \<open>log_p_left > -log 2\<close> for the left turn.
\<close>

theorem greedy_walk_goes_right_from_one_half:
  "TreeSection_get_predicting_leaves_greedily root_node node_to_probs =
     (case node_to_probs [] of
        None \<Rightarrow> Inl KeyError
      | Some root_probs \<Rightarrow>
          collect (\<lambda>i. threshold_walk code_go_right node_to_probs i root_node [])
            [0..<batch_size root_probs])
   \<and> prototree_get_predicting_leaves_greedily root_node node_to_probs =
     (case node_to_probs [] of
        None \<Rightarrow> Inl KeyError
      | Some root_probs \<Rightarrow>
          collect (\<lambda>i. threshold_walk code_go_right node_to_probs i root_node [])
            [0..<batch_size root_probs])"
  by (simp add: greedily_copies TreeSection_get_predicting_leaves_greedily_def
      walk_is_threshold_walk split: option.splits)

theorem greedy_walk_goes_right_from_one_half_witness:
  "TreeSection_get_predicting_leaves_greedily (InternalNode Leaf Leaf)
     [[] \<mapsto> \<lparr>log_p_arrival = [Fin 0, Fin 0], log_p_right = Some [Fin (- ln 2), Fin (- ln 3)]\<rparr>]
   = Inr [[True], [False]]"
  using greedy_walk_goes_right_from_one_half [of "InternalNode Leaf Leaf"
     "[[] \<mapsto> \<lparr>log_p_arrival = [Fin 0, Fin 0], log_p_right = Some [Fin (- ln 2), Fin (- ln 3)]\<rparr>]"]
  by (simp add: batch_size_def code_go_right_def neg_log_2_def upt_rec [of 0 2] upt_rec [of 1 2])

text \<open>
  C3 as stated fails at the tie \<open>p_right = 0.5\<close>: with \<open>log_p_right = -log 2\<close> at the root the
  code selects the right leaf, the stated rule (right only if \<open>log_p_right > -log 2\<close>) the
  left one.
\<close>

theorem greedy_tie_counterexample:
  "TreeSection_get_predicting_leaves_greedily (InternalNode Leaf Leaf)
     [[] \<mapsto> \<lparr>log_p_arrival = [Fin 0], log_p_right = Some [Fin (- ln 2)]\<rparr>] = Inr [[True]]
   \<and> threshold_walk spec_go_right
     [[] \<mapsto> \<lparr>log_p_arrival = [Fin 0], log_p_right = Some [Fin (- ln 2)]\<rparr>] 0
     (InternalNode Leaf Leaf) [] = Inr [False]"
  by (simp add: TreeSection_get_predicting_leaves_greedily_def batch_size_def log_p_left_def
      llog_def exp_minus neg_log_2_def spec_go_right_def less_logval_def ln_div)

section \<open>The sample-max strategy\<close>

lemma collect_all_ok:
  "(\<And>x. x \<in> set xs \<Longrightarrow> f x = Inr (g x)) \<Longrightarrow> collect f xs = Inr (map g xs)"
  by (induction xs) simp_all

lemma argmax_from_first_max:
  assumes "length pre = i" "bi < i" "pre ! bi = bv"
    and "\<And>j. j < i \<Longrightarrow> pre ! j \<le> bv" and "\<And>j. j < bi \<Longrightarrow> pre ! j < bv"
  shows "argmax_from bi bv i xs < length (pre @ xs)
    \<and> (\<forall>j < length (pre @ xs). (pre @ xs) ! j \<le> (pre @ xs) ! argmax_from bi bv i xs)
    \<and> (\<forall>j < argmax_from bi bv i xs. (pre @ xs) ! j < (pre @ xs) ! argmax_from bi bv i xs)"
  using assms
proof (induction xs arbitrary: bi bv i pre)
  case Nil
  then show ?case by simp
next
  case (Cons x xs)
  show ?case
  proof (cases "bv < x")
    case True
    have "argmax_from i x (Suc i) xs < length ((pre @ [x]) @ xs)
      \<and> (\<forall>j < length ((pre @ [x]) @ xs). ((pre @ [x]) @ xs) ! j \<le> ((pre @ [x]) @ xs) ! argmax_from i x (Suc i) xs)
      \<and> (\<forall>j < argmax_from i x (Suc i) xs. ((pre @ [x]) @ xs) ! j < ((pre @ [x]) @ xs) ! argmax_from i x (Suc i) xs)"
    proof (rule Cons.IH)
      show "length (pre @ [x]) = Suc i" using Cons.prems(1) by simp
      show "i < Suc i" by simp
      show "(pre @ [x]) ! i = x" using Cons.prems(1) by (simp add: nth_append)
      show "(pre @ [x]) ! j \<le> x" if "j < Suc i" for j
      proof (cases "j < i")
        case True
        then have "pre ! j \<le> bv" by (rule Cons.prems(4))
        then show ?thesis using \<open>bv < x\<close> True Cons.prems(1) by (simp add: nth_append)
      next
        case False
        then show ?thesis using that Cons.prems(1) by (simp add: nth_append)
      qed
      show "(pre @ [x]) ! j < x" if "j < i" for j
      proof -
        have "pre ! j \<le> bv" using that by (rule Cons.prems(4))
        then show ?thesis using \<open>bv < x\<close> that Cons.prems(1) by (simp add: nth_append)
      qed
    qed
    then show ?thesis using True by simp
  next
    case False
    have "argmax_from bi bv (Suc i) xs < length ((pre @ [x]) @ xs)
      \<and> (\<forall>j < length ((pre @ [x]) @ xs). ((pre @ [x]) @ xs) ! j \<le> ((pre @ [x]) @ xs) ! argmax_from bi bv (Suc i) xs)
      \<and> (\<forall>j < argmax_from bi bv (Suc i) xs. ((pre @ [x]) @ xs) ! j < ((pre @ [x]) @ xs) ! argmax_from bi bv (Suc i) xs)"
    proof (rule Cons.IH)
      show "length (pre @ [x]) = Suc i" using Cons.prems(1) by simp
      show "bi < Suc i" using Cons.prems(2) by simp
      show "(pre @ [x]) ! bi = bv" using Cons.prems(1,2,3) by (simp add: nth_append)
      show "(pre @ [x]) ! j \<le> bv" if "j < Suc i" for j
      proof (cases "j < i")
        case True
        then have "pre ! j \<le> bv" by (rule Cons.prems(4))
        then show ?thesis using True Cons.prems(1) by (simp add: nth_append)
      next
        case False
        then have "j = i" using that by simp
        then show ?thesis using \<open>\<not> bv < x\<close> Cons.prems(1) by (simp add: nth_append)
      qed
      show "(pre @ [x]) ! j < bv" if "j < bi" for j
      proof -
        have "pre ! j < bv" using that by (rule Cons.prems(5))
        then show ?thesis using that Cons.prems(1,2) by (simp add: nth_append)
      qed
    qed
    then show ?thesis using False by simp
  qed
qed

lemma argmax_first_max:
  assumes "row \<noteq> []"
  shows "\<exists>k. argmax row = Inr k \<and> k < length row
    \<and> (\<forall>j < length row. row ! j \<le> row ! k) \<and> (\<forall>j < k. row ! j < row ! k)"
proof -
  from assms obtain x xs where row: "row = x # xs" by (cases row) auto
  have "argmax_from 0 x 1 xs < length ([x] @ xs)
    \<and> (\<forall>j < length ([x] @ xs). ([x] @ xs) ! j \<le> ([x] @ xs) ! argmax_from 0 x 1 xs)
    \<and> (\<forall>j < argmax_from 0 x 1 xs. ([x] @ xs) ! j < ([x] @ xs) ! argmax_from 0 x 1 xs)"
    by (rule argmax_from_first_max) simp_all
  then show ?thesis using row by (simp add: argmax_def)
qed

lemma leaves_nonempty: "leaves t \<noteq> []"
  by (induction t) simp_all

lemma max_p_arrival_leaves_first_max:
  assumes ne: "ls \<noteq> []"
    and h: "\<forall>l \<in> set ls. \<exists>pr. ntp l = Some pr \<and> length (log_p_arrival pr) = n"
  shows "\<exists>pl. TreeSection_get_max_p_arrival_leaves ls ntp = Inr pl \<and> length pl = n
    \<and> (\<forall>b<n. \<exists>k<length ls. pl ! b = ls ! k
          \<and> (\<forall>j<length ls. arrival_at ntp (ls ! j) b \<le> arrival_at ntp (ls ! k) b)
          \<and> (\<forall>j<k. arrival_at ntp (ls ! j) b < arrival_at ntp (ls ! k) b))"
proof -
  define g where "g = (\<lambda>l. case ntp l of None \<Rightarrow> [] | Some pr \<Rightarrow> log_p_arrival pr)"
  define kf where "kf = (\<lambda>row. case argmax row of Inl e \<Rightarrow> 0 | Inr k \<Rightarrow> k)"
  define rows where "rows = map (\<lambda>b. map (\<lambda>col. col ! b) (map g ls)) [0..<n]"
  have len: "length (g l) = n" if "l \<in> set ls" for l
    using h that by (auto simp: g_def)
  have c1: "collect (\<lambda>leaf. case ntp leaf of None \<Rightarrow> Inl KeyError
                            | Some probs \<Rightarrow> Inr (log_p_arrival probs)) ls = Inr (map g ls)"
  proof (rule collect_all_ok)
    fix x assume "x \<in> set ls"
    then show "(case ntp x of None \<Rightarrow> Inl KeyError | Some probs \<Rightarrow> Inr (log_p_arrival probs))
               = Inr (g x)"
      using h by (auto simp: g_def)
  qed
  have c2: "cat_columns (map g ls) = Inr rows"
  proof -
    from ne obtain l0 rest where ls: "ls = l0 # rest" by (cases ls) auto
    have "length (g l0) = n" using len ls by simp
    moreover have "\<forall>c' \<in> set (map g rest). length c' = length (g l0)"
      using len ls by simp
    ultimately show ?thesis unfolding cat_columns_def rows_def ls by simp
  qed
  have row_b: "rows ! b = map (\<lambda>l. g l ! b) ls" if "b < n" for b
    using that by (simp add: rows_def)
  have entry: "g (ls ! j) ! b = arrival_at ntp (ls ! j) b" if "j < length ls" for j b
  proof -
    have "ls ! j \<in> set ls" using that by simp
    then obtain pr where "ntp (ls ! j) = Some pr" using h by blast
    then show ?thesis by (simp add: g_def arrival_at_def)
  qed
  have am: "\<exists>k. argmax (rows ! b) = Inr k \<and> k < length ls
      \<and> (\<forall>j<length ls. arrival_at ntp (ls ! j) b \<le> arrival_at ntp (ls ! k) b)
      \<and> (\<forall>j<k. arrival_at ntp (ls ! j) b < arrival_at ntp (ls ! k) b)" if "b < n" for b
  proof -
    have "rows ! b \<noteq> []" using ne that by (simp add: row_b)
    from argmax_first_max [OF this] obtain k where k: "argmax (rows ! b) = Inr k"
      "k < length (rows ! b)" "\<forall>j < length (rows ! b). rows ! b ! j \<le> rows ! b ! k"
      "\<forall>j < k. rows ! b ! j < rows ! b ! k" by blast
    have kl: "k < length ls" using k(2) that by (simp add: row_b)
    have "arrival_at ntp (ls ! j) b \<le> arrival_at ntp (ls ! k) b" if "j < length ls" for j
      using k(3) that kl \<open>b < n\<close> by (simp add: row_b entry)
    moreover have "arrival_at ntp (ls ! j) b < arrival_at ntp (ls ! k) b" if "j < k" for j
    proof -
      have "j < length ls" using that kl by simp
      then show ?thesis using k(4) that kl \<open>b < n\<close> by (simp add: row_b entry)
    qed
    ultimately show ?thesis using k(1) kl by blast
  qed
  have c3: "collect argmax rows = Inr (map kf rows)"
  proof (rule collect_all_ok)
    fix row assume "row \<in> set rows"
    then obtain b where "b < n" "row = rows ! b"
      by (auto simp: rows_def in_set_conv_nth)
    then show "argmax row = Inr (kf row)" using am [of b] by (auto simp: kf_def)
  qed
  have res: "TreeSection_get_max_p_arrival_leaves ls ntp = Inr (map (\<lambda>i. ls ! i) (map kf rows))"
    by (simp add: TreeSection_get_max_p_arrival_leaves_def c1 c2 c3)
  have lr: "length rows = n" by (simp add: rows_def)
  have "\<exists>k<length ls. map (\<lambda>i. ls ! i) (map kf rows) ! b = ls ! k
          \<and> (\<forall>j<length ls. arrival_at ntp (ls ! j) b \<le> arrival_at ntp (ls ! k) b)
          \<and> (\<forall>j<k. arrival_at ntp (ls ! j) b < arrival_at ntp (ls ! k) b)" if "b < n" for b
  proof -
    from am [OF that] obtain k where k: "argmax (rows ! b) = Inr k" "k < length ls"
      "\<forall>j<length ls. arrival_at ntp (ls ! j) b \<le> arrival_at ntp (ls ! k) b"
      "\<forall>j<k. arrival_at ntp (ls ! j) b < arrival_at ntp (ls ! k) b" by blast
    have "map (\<lambda>i. ls ! i) (map kf rows) ! b = ls ! k"
      using that lr k(1) by (simp add: kf_def)
    then show ?thesis using k by blast
  qed
  then show ?thesis using res lr by simp
qed

text \<open>
  C7. Under the sample-max strategy, in both files, the leaf selected for every sample \<open>b\<close>
  of the batch is a leaf whose \<open>log_p_arrival\<close> for \<open>b\<close> is maximal among all leaves of the
  tree, and among several maximal leaves it is the first in the enumeration order of
  \<open>root.leaves\<close>.
\<close>

theorem sample_max_selects_first_maximal_arrival:
  assumes "\<forall>l \<in> set (leaves root_node).
             \<exists>pr. node_to_probs l = Some pr \<and> length (log_p_arrival pr) = n"
  shows "\<exists>pl. TreeSection_get_predicting_leaves root_node node_to_probs ''sample_max'' = Inr pl
    \<and> prototree_get_predicting_leaves root_node node_to_probs ''sample_max'' = Inr pl
    \<and> length pl = n
    \<and> (\<forall>b<n. \<exists>k<length (leaves root_node). pl ! b = leaves root_node ! k
          \<and> (\<forall>j<length (leaves root_node).
                 arrival_at node_to_probs (leaves root_node ! j) b
                   \<le> arrival_at node_to_probs (leaves root_node ! k) b)
          \<and> (\<forall>j<k. arrival_at node_to_probs (leaves root_node ! j) b
                   < arrival_at node_to_probs (leaves root_node ! k) b))"
  using max_p_arrival_leaves_first_max [OF leaves_nonempty assms]
  by (simp add: TreeSection_get_predicting_leaves_def prototree_get_predicting_leaves_def
      max_p_arrival_copies)

theorem sample_max_selects_first_maximal_arrival_witness:
  "TreeSection_get_predicting_leaves (InternalNode Leaf Leaf)
     [[] \<mapsto> \<lparr>log_p_arrival = [Fin 0, Fin 0], log_p_right = Some [Fin (- ln 2), Fin (- 1)]\<rparr>,
      [False] \<mapsto> \<lparr>log_p_arrival = [Fin (- ln 2), Fin (- 2)], log_p_right = None\<rparr>,
      [True] \<mapsto> \<lparr>log_p_arrival = [Fin (- ln 2), Fin (- 1)], log_p_right = None\<rparr>] ''sample_max''
   = Inr [[False], [True]]"
proof -
  let ?ntp = "[[] \<mapsto> \<lparr>log_p_arrival = [Fin 0, Fin 0], log_p_right = Some [Fin (- ln 2), Fin (- 1)]\<rparr>,
      [False] \<mapsto> \<lparr>log_p_arrival = [Fin (- ln 2), Fin (- 2)], log_p_right = None\<rparr>,
      [True] \<mapsto> \<lparr>log_p_arrival = [Fin (- ln 2), Fin (- 1)], log_p_right = None\<rparr>]"
  have h: "\<forall>l \<in> set (leaves (InternalNode Leaf Leaf)).
             \<exists>pr. ?ntp l = Some pr \<and> length (log_p_arrival pr) = 2"
    by simp
  from sample_max_selects_first_maximal_arrival [OF h]
  obtain pl where pl: "TreeSection_get_predicting_leaves (InternalNode Leaf Leaf) ?ntp ''sample_max'' = Inr pl"
    and len: "length pl = 2"
    and sel: "\<forall>b<2. \<exists>k<length (leaves (InternalNode Leaf Leaf)). pl ! b = leaves (InternalNode Leaf Leaf) ! k
          \<and> (\<forall>j<length (leaves (InternalNode Leaf Leaf)).
                 arrival_at ?ntp (leaves (InternalNode Leaf Leaf) ! j) b
                   \<le> arrival_at ?ntp (leaves (InternalNode Leaf Leaf) ! k) b)
          \<and> (\<forall>j<k. arrival_at ?ntp (leaves (InternalNode Leaf Leaf) ! j) b
                   < arrival_at ?ntp (leaves (InternalNode Leaf Leaf) ! k) b)"
    by blast
  have "pl = [[False], [True]]"
    using pl by (simp add: TreeSection_get_predicting_leaves_def
        TreeSection_get_max_p_arrival_leaves_def cat_columns_def argmax_def less_logval_def
        upt_rec [of 0 2] upt_rec [of 1 2])
  then show ?thesis using pl by simp
qed

section \<open>Probability propagation: every node gets its entry\<close>

lemma descendants_has_root: "[] \<in> set (descendants t)"
  by (cases t) simp_all

lemma internal_nodes_are_descendants:
  "set (descendant_internal_nodes t) \<subseteq> set (descendants t)"
  by (induction t) auto

lemma add_strict_descendants_ok:
  assumes lpr: "\<And>q. q \<in> set (descendant_internal_nodes t)
                  \<Longrightarrow> \<exists>v. n2l (p @ q) = Some v \<and> length v = n"
    and rp: "result p = Some pr"
    and la: "length (log_p_arrival pr) = n"
    and lr: "log_p_right pr = n2l p"
  shows "\<exists>res. add_strict_descendants n2l t p result = Inr res
     \<and> (\<forall>k. (\<nexists>q. q \<noteq> [] \<and> k = p @ q) \<longrightarrow> res k = result k)
     \<and> (\<forall>q \<in> set (descendants t). \<exists>pq. res (p @ q) = Some pq
            \<and> length (log_p_arrival pq) = n \<and> log_p_right pq = n2l (p @ q))
     \<and> (\<forall>q \<in> set (descendant_internal_nodes t). \<exists>pq pl pr' v.
            res (p @ q) = Some pq \<and> log_p_right pq = Some v
            \<and> res (p @ q @ [False]) = Some pl \<and> res (p @ q @ [True]) = Some pr'
            \<and> log_p_arrival pl = map2 ladd (log_p_arrival pq) (map log1mexp v)
            \<and> log_p_arrival pr' = map2 ladd (log_p_arrival pq) v)
     \<and> dom res = dom result \<union> (\<lambda>q. p @ q) ` set (descendants t)"
  using assms
proof (induction t arbitrary: p result pr)
  case Leaf
  have "p \<in> dom result" using Leaf.prems(2) by auto
  then have "dom result = dom result \<union> (\<lambda>q. p @ q) ` set (descendants Leaf)" by auto
  then show ?case using Leaf.prems(2,3,4) by simp
next
  case (InternalNode l r)
  from InternalNode.prems(1) [of "[]"] obtain v where v: "n2l p = Some v" "length v = n"
    by auto
  have prv: "log_p_right pr = Some v" using InternalNode.prems(4) v by simp
  define L where "L = \<lparr>log_p_arrival = map2 ladd (log_p_arrival pr) (map log1mexp v),
                        log_p_right = n2l (p @ [False])\<rparr>"
  define R where "R = \<lparr>log_p_arrival = map2 ladd (log_p_arrival pr) v,
                        log_p_right = n2l (p @ [True])\<rparr>"
  define result2 where "result2 = result(p @ [False] \<mapsto> L, p @ [True] \<mapsto> R)"
  have al: "log_p_arrival_left pr = Inr (log_p_arrival L)"
    using prv v InternalNode.prems(3)
    by (simp add: log_p_arrival_left_def log_p_left_def tensor_add_def L_def)
  have ar: "log_p_arrival_right pr = Inr (log_p_arrival R)"
    using prv v InternalNode.prems(3)
    by (simp add: log_p_arrival_right_def tensor_add_def R_def)
  have step: "add_strict_descendants n2l (InternalNode l r) p result =
    (case add_strict_descendants n2l l (p @ [False]) result2 of
       Inl e \<Rightarrow> Inl e
     | Inr result' \<Rightarrow> add_strict_descendants n2l r (p @ [True]) result')"
    using InternalNode.prems(2) al ar by (simp add: result2_def L_def R_def)
  have "\<exists>res. add_strict_descendants n2l l (p @ [False]) result2 = Inr res
     \<and> (\<forall>k. (\<nexists>q. q \<noteq> [] \<and> k = (p @ [False]) @ q) \<longrightarrow> res k = result2 k)
     \<and> (\<forall>q \<in> set (descendants l). \<exists>pq. res ((p @ [False]) @ q) = Some pq
            \<and> length (log_p_arrival pq) = n \<and> log_p_right pq = n2l ((p @ [False]) @ q))
     \<and> (\<forall>q \<in> set (descendant_internal_nodes l). \<exists>pq pl pr' v.
            res ((p @ [False]) @ q) = Some pq \<and> log_p_right pq = Some v
            \<and> res ((p @ [False]) @ q @ [False]) = Some pl
            \<and> res ((p @ [False]) @ q @ [True]) = Some pr'
            \<and> log_p_arrival pl = map2 ladd (log_p_arrival pq) (map log1mexp v)
            \<and> log_p_arrival pr' = map2 ladd (log_p_arrival pq) v)
     \<and> dom res = dom result2 \<union> (\<lambda>q. (p @ [False]) @ q) ` set (descendants l)"
  proof (rule InternalNode.IH(1))
    show "\<exists>v. n2l ((p @ [False]) @ q) = Some v \<and> length v = n"
      if "q \<in> set (descendant_internal_nodes l)" for q
      using InternalNode.prems(1) [of "False # q"] that by simp
    show "result2 (p @ [False]) = Some L" by (simp add: result2_def)
    show "length (log_p_arrival L) = n" using v InternalNode.prems(3) by (simp add: L_def)
    show "log_p_right L = n2l (p @ [False])" by (simp add: L_def)
  qed
  then obtain res1 where all1: "add_strict_descendants n2l l (p @ [False]) result2 = Inr res1
     \<and> (\<forall>k. (\<nexists>q. q \<noteq> [] \<and> k = (p @ [False]) @ q) \<longrightarrow> res1 k = result2 k)
     \<and> (\<forall>q \<in> set (descendants l). \<exists>pq. res1 ((p @ [False]) @ q) = Some pq
            \<and> length (log_p_arrival pq) = n \<and> log_p_right pq = n2l ((p @ [False]) @ q))
     \<and> (\<forall>q \<in> set (descendant_internal_nodes l). \<exists>pq pl pr' v.
            res1 ((p @ [False]) @ q) = Some pq \<and> log_p_right pq = Some v
            \<and> res1 ((p @ [False]) @ q @ [False]) = Some pl
            \<and> res1 ((p @ [False]) @ q @ [True]) = Some pr'
            \<and> log_p_arrival pl = map2 ladd (log_p_arrival pq) (map log1mexp v)
            \<and> log_p_arrival pr' = map2 ladd (log_p_arrival pq) v)
     \<and> dom res1 = dom result2 \<union> (\<lambda>q. (p @ [False]) @ q) ` set (descendants l)"
    by (rule exE)
  note res1 = all1 [THEN conjunct1]
  note frame1 = all1 [THEN conjunct2, THEN conjunct1, rule_format]
  note ent1 = all1 [THEN conjunct2, THEN conjunct2, THEN conjunct1, rule_format]
  note ch1 = all1 [THEN conjunct2, THEN conjunct2, THEN conjunct2, THEN conjunct1, rule_format]
  note dom1 = all1 [THEN conjunct2, THEN conjunct2, THEN conjunct2, THEN conjunct2]
  have r1R: "res1 (p @ [True]) = Some R"
  proof -
    have "res1 (p @ [True]) = result2 (p @ [True])" by (rule frame1) simp
    then show ?thesis by (simp add: result2_def)
  qed
  have r1L: "res1 (p @ [False]) = Some L"
  proof -
    have "res1 (p @ [False]) = result2 (p @ [False])" by (rule frame1) simp
    then show ?thesis by (simp add: result2_def)
  qed
  have r1p: "res1 p = Some pr"
  proof -
    have "res1 p = result2 p" by (rule frame1) simp
    then show ?thesis using InternalNode.prems(2) by (simp add: result2_def)
  qed
  have "\<exists>res. add_strict_descendants n2l r (p @ [True]) res1 = Inr res
     \<and> (\<forall>k. (\<nexists>q. q \<noteq> [] \<and> k = (p @ [True]) @ q) \<longrightarrow> res k = res1 k)
     \<and> (\<forall>q \<in> set (descendants r). \<exists>pq. res ((p @ [True]) @ q) = Some pq
            \<and> length (log_p_arrival pq) = n \<and> log_p_right pq = n2l ((p @ [True]) @ q))
     \<and> (\<forall>q \<in> set (descendant_internal_nodes r). \<exists>pq pl pr' v.
            res ((p @ [True]) @ q) = Some pq \<and> log_p_right pq = Some v
            \<and> res ((p @ [True]) @ q @ [False]) = Some pl
            \<and> res ((p @ [True]) @ q @ [True]) = Some pr'
            \<and> log_p_arrival pl = map2 ladd (log_p_arrival pq) (map log1mexp v)
            \<and> log_p_arrival pr' = map2 ladd (log_p_arrival pq) v)
     \<and> dom res = dom res1 \<union> (\<lambda>q. (p @ [True]) @ q) ` set (descendants r)"
  proof (rule InternalNode.IH(2))
    show "\<exists>v. n2l ((p @ [True]) @ q) = Some v \<and> length v = n"
      if "q \<in> set (descendant_internal_nodes r)" for q
      using InternalNode.prems(1) [of "True # q"] that by simp
    show "res1 (p @ [True]) = Some R" by (rule r1R)
    show "length (log_p_arrival R) = n" using v InternalNode.prems(3) by (simp add: R_def)
    show "log_p_right R = n2l (p @ [True])" by (simp add: R_def)
  qed
  then obtain res2 where all2: "add_strict_descendants n2l r (p @ [True]) res1 = Inr res2
     \<and> (\<forall>k. (\<nexists>q. q \<noteq> [] \<and> k = (p @ [True]) @ q) \<longrightarrow> res2 k = res1 k)
     \<and> (\<forall>q \<in> set (descendants r). \<exists>pq. res2 ((p @ [True]) @ q) = Some pq
            \<and> length (log_p_arrival pq) = n \<and> log_p_right pq = n2l ((p @ [True]) @ q))
     \<and> (\<forall>q \<in> set (descendant_internal_nodes r). \<exists>pq pl pr' v.
            res2 ((p @ [True]) @ q) = Some pq \<and> log_p_right pq = Some v
            \<and> res2 ((p @ [True]) @ q @ [False]) = Some pl
            \<and> res2 ((p @ [True]) @ q @ [True]) = Some pr'
            \<and> log_p_arrival pl = map2 ladd (log_p_arrival pq) (map log1mexp v)
            \<and> log_p_arrival pr' = map2 ladd (log_p_arrival pq) v)
     \<and> dom res2 = dom res1 \<union> (\<lambda>q. (p @ [True]) @ q) ` set (descendants r)"
    by (rule exE)
  note res2 = all2 [THEN conjunct1]
  note frame2 = all2 [THEN conjunct2, THEN conjunct1, rule_format]
  note ent2 = all2 [THEN conjunct2, THEN conjunct2, THEN conjunct1, rule_format]
  note ch2 = all2 [THEN conjunct2, THEN conjunct2, THEN conjunct2, THEN conjunct1, rule_format]
  note dom2 = all2 [THEN conjunct2, THEN conjunct2, THEN conjunct2, THEN conjunct2]
  have left_kept: "res2 ((p @ [False]) @ q) = res1 ((p @ [False]) @ q)" for q
    by (rule frame2) simp
  have r2p: "res2 p = Some pr"
  proof -
    have "res2 p = res1 p" by (rule frame2) simp
    then show ?thesis using r1p by simp
  qed
  have r2L: "res2 (p @ [False]) = Some L" using left_kept [of "[]"] r1L by simp
  have r2R: "res2 (p @ [True]) = Some R"
  proof -
    have "res2 (p @ [True]) = res1 (p @ [True])" by (rule frame2) simp
    then show ?thesis using r1R by simp
  qed
  have run: "add_strict_descendants n2l (InternalNode l r) p result = Inr res2"
    using step res1 res2 by simp
  have frame: "res2 k = result k" if "\<nexists>q. q \<noteq> [] \<and> k = p @ q" for k
  proof -
    have ext: "k \<noteq> p @ b # q" for b q
    proof
      assume "k = p @ b # q"
      then have "b # q \<noteq> [] \<and> k = p @ (b # q)" by simp
      then show False using that by blast
    qed
    have a: "\<nexists>q. q \<noteq> [] \<and> k = (p @ [True]) @ q" using ext [of True] by simp
    have b: "\<nexists>q. q \<noteq> [] \<and> k = (p @ [False]) @ q" using ext [of False] by simp
    have c: "k \<noteq> p @ [False]" "k \<noteq> p @ [True]"
      using ext [of False "[]"] ext [of True "[]"] by simp_all
    have "res2 k = res1 k" using a by (rule frame2)
    also have "\<dots> = result2 k" using b by (rule frame1)
    also have "\<dots> = result k" using c by (simp add: result2_def)
    finally show ?thesis .
  qed
  have ent: "\<exists>pq. res2 (p @ q) = Some pq \<and> length (log_p_arrival pq) = n
               \<and> log_p_right pq = n2l (p @ q)"
    if "q \<in> set (descendants (InternalNode l r))" for q
  proof -
    from that consider "q = []" | q' where "q = False # q'" "q' \<in> set (descendants l)"
      | q' where "q = True # q'" "q' \<in> set (descendants r)" by auto
    then show ?thesis
    proof cases
      case 1
      then show ?thesis using r2p InternalNode.prems(3,4) by simp
    next
      case 2
      then show ?thesis using ent1 [of q'] left_kept [of q'] by simp
    next
      case 3
      from ent2 [OF 3(2)] obtain pq where pq: "res2 ((p @ [True]) @ q') = Some pq"
        "length (log_p_arrival pq) = n" "log_p_right pq = n2l ((p @ [True]) @ q')" by blast
      have "(p @ [True]) @ q' = p @ q" using 3(1) by simp
      then show ?thesis using pq by (simp only:) blast
    qed
  qed
  have ch: "\<exists>pq pl pr' v.
            res2 (p @ q) = Some pq \<and> log_p_right pq = Some v
            \<and> res2 (p @ q @ [False]) = Some pl \<and> res2 (p @ q @ [True]) = Some pr'
            \<and> log_p_arrival pl = map2 ladd (log_p_arrival pq) (map log1mexp v)
            \<and> log_p_arrival pr' = map2 ladd (log_p_arrival pq) v"
    if "q \<in> set (descendant_internal_nodes (InternalNode l r))" for q
  proof -
    from that consider "q = []" | q' where "q = False # q'" "q' \<in> set (descendant_internal_nodes l)"
      | q' where "q = True # q'" "q' \<in> set (descendant_internal_nodes r)" by auto
    then show ?thesis
    proof cases
      case 1
      have "res2 (p @ q) = Some pr" using r2p 1 by simp
      moreover have "res2 (p @ q @ [False]) = Some L" using r2L 1 by simp
      moreover have "res2 (p @ q @ [True]) = Some R" using r2R 1 by simp
      moreover have "log_p_arrival L = map2 ladd (log_p_arrival pr) (map log1mexp v)"
        by (simp add: L_def)
      moreover have "log_p_arrival R = map2 ladd (log_p_arrival pr) v"
        by (simp add: R_def)
      ultimately show ?thesis using prv by blast
    next
      case 2
      from ch1 [OF 2(2)] obtain pq pl pr' v where w: "res1 ((p @ [False]) @ q') = Some pq"
        "log_p_right pq = Some v" "res1 ((p @ [False]) @ q' @ [False]) = Some pl"
        "res1 ((p @ [False]) @ q' @ [True]) = Some pr'"
        "log_p_arrival pl = map2 ladd (log_p_arrival pq) (map log1mexp v)"
        "log_p_arrival pr' = map2 ladd (log_p_arrival pq) v" by blast
      have e: "(p @ [False]) @ q' = p @ q" "(p @ [False]) @ q' @ [False] = p @ q @ [False]"
        "(p @ [False]) @ q' @ [True] = p @ q @ [True]" using 2(1) by simp_all
      have k: "res2 (p @ q) = res1 (p @ q)" "res2 (p @ q @ [False]) = res1 (p @ q @ [False])"
        "res2 (p @ q @ [True]) = res1 (p @ q @ [True])"
        using left_kept [of q'] left_kept [of "q' @ [False]"] left_kept [of "q' @ [True]"]
        unfolding e by blast+
      show ?thesis using w unfolding e k by blast
    next
      case 3
      from ch2 [OF 3(2)] obtain pq pl pr' v where w: "res2 ((p @ [True]) @ q') = Some pq"
        "log_p_right pq = Some v" "res2 ((p @ [True]) @ q' @ [False]) = Some pl"
        "res2 ((p @ [True]) @ q' @ [True]) = Some pr'"
        "log_p_arrival pl = map2 ladd (log_p_arrival pq) (map log1mexp v)"
        "log_p_arrival pr' = map2 ladd (log_p_arrival pq) v" by blast
      have e: "(p @ [True]) @ q' = p @ q" "(p @ [True]) @ q' @ [False] = p @ q @ [False]"
        "(p @ [True]) @ q' @ [True] = p @ q @ [True]" using 3(1) by simp_all
      show ?thesis using w unfolding e by blast
    qed
  qed
  have dm: "dom res2 = dom result \<union> (\<lambda>q. p @ q) ` set (descendants (InternalNode l r))"
  proof -
    define A where "A = (\<lambda>q. (p @ [False]) @ q) ` set (descendants l)"
    define B where "B = (\<lambda>q. (p @ [True]) @ q) ` set (descendants r)"
    have pin: "p \<in> dom result" using InternalNode.prems(2) by (simp add: domI)
    have d2: "dom result2 = insert (p @ [True]) (insert (p @ [False]) (dom result))"
      by (simp add: result2_def)
    have inA: "p @ [False] \<in> A"
      unfolding A_def using descendants_has_root [of l] by (rule rev_image_eqI) simp
    have inB: "p @ [True] \<in> B"
      unfolding B_def using descendants_has_root [of r] by (rule rev_image_eqI) simp
    have iA: "(\<lambda>q. p @ q) ` ((#) False ` set (descendants l)) = A"
      unfolding A_def image_image by simp
    have iB: "(\<lambda>q. p @ q) ` ((#) True ` set (descendants r)) = B"
      unfolding B_def image_image by simp
    have "set (descendants (InternalNode l r))
            = insert [] ((#) False ` set (descendants l) \<union> (#) True ` set (descendants r))"
      by simp
    then have "(\<lambda>q. p @ q) ` set (descendants (InternalNode l r))
            = insert (p @ []) ((\<lambda>q. p @ q) ` ((#) False ` set (descendants l))
                 \<union> (\<lambda>q. p @ q) ` ((#) True ` set (descendants r)))"
      by (simp only: image_insert image_Un)
    then have img: "(\<lambda>q. p @ q) ` set (descendants (InternalNode l r)) = insert p (A \<union> B)"
      unfolding iA iB by simp
    have d1: "dom res1 = dom result2 \<union> A" using dom1 unfolding A_def .
    have d3: "dom res2 = dom res1 \<union> B" using dom2 unfolding B_def .
    show ?thesis unfolding img d3 d1 d2 using pin inA inB by blast
  qed
  show ?case
  proof (intro exI conjI)
    show "add_strict_descendants n2l (InternalNode l r) p result = Inr res2" by (rule run)
    show "\<forall>k. (\<nexists>q. q \<noteq> [] \<and> k = p @ q) \<longrightarrow> res2 k = result k"
      using frame by blast
    show "\<forall>q \<in> set (descendants (InternalNode l r)). \<exists>pq. res2 (p @ q) = Some pq
            \<and> length (log_p_arrival pq) = n \<and> log_p_right pq = n2l (p @ q)"
      using ent by blast
    show "\<forall>q \<in> set (descendant_internal_nodes (InternalNode l r)). \<exists>pq pl pr' v.
            res2 (p @ q) = Some pq \<and> log_p_right pq = Some v
            \<and> res2 (p @ q @ [False]) = Some pl \<and> res2 (p @ q @ [True]) = Some pr'
            \<and> log_p_arrival pl = map2 ladd (log_p_arrival pq) (map log1mexp v)
            \<and> log_p_arrival pr' = map2 ladd (log_p_arrival pq) v"
      using ch by blast
    show "dom res2 = dom result \<union> (\<lambda>q. p @ q) ` set (descendants (InternalNode l r))"
      by (rule dm)
  qed
qed

text \<open>
  C4. For a root that is an internal node and a dictionary that gives every internal node
  its \<open>log_p_right\<close> tensor of the batch's length, the propagation returns a dictionary
  whose keys are exactly the nodes of the tree; the root's \<open>log_p_arrival\<close> is \<open>0\<close> for
  every sample; and for every internal node the right child's \<open>log_p_arrival\<close> is the
  node's \<open>log_p_arrival\<close> plus its \<open>log_p_right\<close>, the left child's the node's
  \<open>log_p_arrival\<close> plus \<open>log(1 - exp(log_p_right))\<close>, element-wise.
\<close>

theorem node_to_probs_propagation:
  assumes int: "is_internal root_node"
    and lpr: "\<forall>q \<in> set (descendant_internal_nodes root_node).
               \<exists>v. node_to_log_p_right q = Some v \<and> length v = n"
  shows "\<exists>result. node_to_probs_from_p_right node_to_log_p_right root_node = Inr result
     \<and> dom result = set (descendants root_node)
     \<and> (\<exists>root_probs. result [] = Some root_probs
            \<and> log_p_arrival root_probs = replicate n (Fin 0))
     \<and> (\<forall>q \<in> set (descendant_internal_nodes root_node). \<exists>probs l_probs r_probs v.
            result q = Some probs \<and> log_p_right probs = Some v
            \<and> node_to_log_p_right q = Some v
            \<and> result (q @ [False]) = Some l_probs \<and> result (q @ [True]) = Some r_probs
            \<and> log_p_arrival r_probs = map2 ladd (log_p_arrival probs) v
            \<and> log_p_arrival l_probs = map2 ladd (log_p_arrival probs) (map log1mexp v))"
proof -
  have "[] \<in> set (descendant_internal_nodes root_node)"
    using int by (cases root_node) (simp_all add: is_internal_def)
  with lpr obtain rv where rv: "node_to_log_p_right [] = Some rv" "length rv = n" by blast
  define rp where "rp = \<lparr>log_p_arrival = map (\<lambda>x. Fin 0) rv, log_p_right = Some rv\<rparr>"
  define result0 :: "node_ref \<rightharpoonup> NodeProbabilities" where "result0 = [[] \<mapsto> rp]"
  have run0: "node_to_probs_from_p_right node_to_log_p_right root_node
      = add_strict_descendants node_to_log_p_right root_node [] result0"
    by (simp add: node_to_probs_from_p_right_def rv result0_def rp_def)
  have "\<exists>res. add_strict_descendants node_to_log_p_right root_node [] result0 = Inr res
     \<and> (\<forall>k. (\<nexists>q. q \<noteq> [] \<and> k = [] @ q) \<longrightarrow> res k = result0 k)
     \<and> (\<forall>q \<in> set (descendants root_node). \<exists>pq. res ([] @ q) = Some pq
            \<and> length (log_p_arrival pq) = n \<and> log_p_right pq = node_to_log_p_right ([] @ q))
     \<and> (\<forall>q \<in> set (descendant_internal_nodes root_node). \<exists>pq pl pr' v.
            res ([] @ q) = Some pq \<and> log_p_right pq = Some v
            \<and> res ([] @ q @ [False]) = Some pl \<and> res ([] @ q @ [True]) = Some pr'
            \<and> log_p_arrival pl = map2 ladd (log_p_arrival pq) (map log1mexp v)
            \<and> log_p_arrival pr' = map2 ladd (log_p_arrival pq) v)
     \<and> dom res = dom result0 \<union> (\<lambda>q. [] @ q) ` set (descendants root_node)"
  proof (rule add_strict_descendants_ok)
    show "\<exists>v. node_to_log_p_right ([] @ q) = Some v \<and> length v = n"
      if "q \<in> set (descendant_internal_nodes root_node)" for q
      using lpr that by simp
    show "result0 [] = Some rp" by (simp add: result0_def)
    show "length (log_p_arrival rp) = n" using rv by (simp add: rp_def)
    show "log_p_right rp = node_to_log_p_right []" using rv by (simp add: rp_def)
  qed
  then obtain res where all: "add_strict_descendants node_to_log_p_right root_node [] result0 = Inr res
     \<and> (\<forall>k. (\<nexists>q. q \<noteq> [] \<and> k = [] @ q) \<longrightarrow> res k = result0 k)
     \<and> (\<forall>q \<in> set (descendants root_node). \<exists>pq. res ([] @ q) = Some pq
            \<and> length (log_p_arrival pq) = n \<and> log_p_right pq = node_to_log_p_right ([] @ q))
     \<and> (\<forall>q \<in> set (descendant_internal_nodes root_node). \<exists>pq pl pr' v.
            res ([] @ q) = Some pq \<and> log_p_right pq = Some v
            \<and> res ([] @ q @ [False]) = Some pl \<and> res ([] @ q @ [True]) = Some pr'
            \<and> log_p_arrival pl = map2 ladd (log_p_arrival pq) (map log1mexp v)
            \<and> log_p_arrival pr' = map2 ladd (log_p_arrival pq) v)
     \<and> dom res = dom result0 \<union> (\<lambda>q. [] @ q) ` set (descendants root_node)"
    by (rule exE)
  note run = all [THEN conjunct1]
  note frame = all [THEN conjunct2, THEN conjunct1, rule_format]
  note ent = all [THEN conjunct2, THEN conjunct2, THEN conjunct1, rule_format]
  note ch = all [THEN conjunct2, THEN conjunct2, THEN conjunct2, THEN conjunct1, rule_format]
  note dm = all [THEN conjunct2, THEN conjunct2, THEN conjunct2, THEN conjunct2]
  have root_entry: "res [] = Some rp"
  proof -
    have "res [] = result0 []" by (rule frame) simp
    then show ?thesis by (simp add: result0_def)
  qed
  have c1: "node_to_probs_from_p_right node_to_log_p_right root_node = Inr res"
    using run0 run by simp
  have c2: "dom res = set (descendants root_node)"
  proof -
    have e1: "(\<lambda>q. [] @ q) ` set (descendants root_node) = set (descendants root_node)"
      by simp
    have e2: "dom result0 = {[]}" by (simp add: result0_def)
    have e3: "{[]} \<union> set (descendants root_node) = set (descendants root_node)"
      using descendants_has_root [of root_node] by (simp add: insert_absorb)
    show ?thesis using dm unfolding e1 e2 e3 .
  qed
  have c3: "\<exists>root_probs. res [] = Some root_probs
            \<and> log_p_arrival root_probs = replicate n (Fin 0)"
    using root_entry rv by (simp add: rp_def map_replicate_const)
  have c4: "\<exists>probs l_probs r_probs v.
            res q = Some probs \<and> log_p_right probs = Some v
            \<and> node_to_log_p_right q = Some v
            \<and> res (q @ [False]) = Some l_probs \<and> res (q @ [True]) = Some r_probs
            \<and> log_p_arrival r_probs = map2 ladd (log_p_arrival probs) v
            \<and> log_p_arrival l_probs = map2 ladd (log_p_arrival probs) (map log1mexp v)"
    if q: "q \<in> set (descendant_internal_nodes root_node)" for q
  proof -
    from ch [OF q] obtain pq pl pr' v where w: "res ([] @ q) = Some pq"
      "log_p_right pq = Some v" "res ([] @ q @ [False]) = Some pl"
      "res ([] @ q @ [True]) = Some pr'"
      "log_p_arrival pl = map2 ladd (log_p_arrival pq) (map log1mexp v)"
      "log_p_arrival pr' = map2 ladd (log_p_arrival pq) v" by blast
    have "q \<in> set (descendants root_node)"
      using q internal_nodes_are_descendants by blast
    from ent [OF this] obtain pq' where w': "res ([] @ q) = Some pq'"
      "log_p_right pq' = node_to_log_p_right ([] @ q)" by blast
    have "pq' = pq" using w(1) w'(1) by simp
    then have "node_to_log_p_right q = Some v" using w(2) w'(2) by simp
    then show ?thesis using w unfolding append_Nil by blast
  qed
  show ?thesis
  proof (intro exI conjI)
    show "node_to_probs_from_p_right node_to_log_p_right root_node = Inr res" by (rule c1)
    show "dom res = set (descendants root_node)" by (rule c2)
    show "res [] = Some rp" by (rule root_entry)
    show "log_p_arrival rp = replicate n (Fin 0)" using rv by (simp add: rp_def map_replicate_const)
    show "\<forall>q \<in> set (descendant_internal_nodes root_node). \<exists>probs l_probs r_probs v.
            res q = Some probs \<and> log_p_right probs = Some v
            \<and> node_to_log_p_right q = Some v
            \<and> res (q @ [False]) = Some l_probs \<and> res (q @ [True]) = Some r_probs
            \<and> log_p_arrival r_probs = map2 ladd (log_p_arrival probs) v
            \<and> log_p_arrival l_probs = map2 ladd (log_p_arrival probs) (map log1mexp v)"
      using c4 by blast
  qed
qed

theorem node_to_probs_propagation_witness:
  "map_sum id (\<lambda>result. (result [], result [False], result [True], result [False, False]))
     (node_to_probs_from_p_right [[] \<mapsto> [Fin (- ln 2), Fin (- ln 4)]] (InternalNode Leaf Leaf))
   = Inr (Some \<lparr>log_p_arrival = [Fin 0, Fin 0], log_p_right = Some [Fin (- ln 2), Fin (- ln 4)]\<rparr>,
          Some \<lparr>log_p_arrival = [Fin (ln (1/2)), Fin (ln (3/4))], log_p_right = None\<rparr>,
          Some \<lparr>log_p_arrival = [Fin (- ln 2), Fin (- ln 4)], log_p_right = None\<rparr>,
          None)"
proof -
  have i: "is_internal (InternalNode Leaf Leaf)" by (simp add: is_internal_def)
  have h: "\<forall>q \<in> set (descendant_internal_nodes (InternalNode Leaf Leaf)).
             \<exists>v. [[] \<mapsto> [Fin (- ln 2), Fin (- ln 4)]] q = Some v \<and> length v = 2"
    by simp
  from node_to_probs_propagation [OF i h]
  obtain result where r: "node_to_probs_from_p_right [[] \<mapsto> [Fin (- ln 2), Fin (- ln 4)]]
      (InternalNode Leaf Leaf) = Inr result" by blast
  have "1 - inverse 2 = (1/2 :: real)" "1 - inverse 4 = (3/4 :: real)" by simp_all
  then show ?thesis
    by (simp add: node_to_probs_from_p_right_def log_p_arrival_left_def log_p_arrival_right_def
        log_p_left_def tensor_add_def llog_def exp_minus)
qed

section \<open>The forward pass on a well-formed section\<close>

lemma TreeSection_init_ok:
  assumes "TreeSection_init n_classes depth threshold alpha store = Inr ts"
  shows "section_ok ts"
proof -
  have d: "\<not> depth < 1" "ts = \<lparr>num_classes = n_classes,
               tree_root = perfect_tree depth,
               node_to_proto_idx = zip (descendant_internal_nodes (perfect_tree depth))
                                       [0..<length (descendant_internal_nodes (perfect_tree depth))],
               leaf_pruning_threshold = threshold,
               leaf_opt_ewma_alpha = alpha,
               leaf_store = store\<rparr>"
    using assms by (auto simp: TreeSection_init_def create_tree_def split: if_splits)
  then obtain d' where "depth = Suc d'" by (cases depth) auto
  then have "is_internal (perfect_tree depth)" by (simp add: is_internal_def)
  then show ?thesis using d(2) by (simp add: section_ok_def)
qed

lemma select_column_ok:
  assumes "\<And>row. row \<in> set sims \<Longrightarrow> i < length row"
  shows "select_column sims i = Inr (map (\<lambda>row. row ! i) sims)"
  using assms by (simp add: select_column_def)

lemma node_to_log_p_right_items_ok:
  assumes "\<And>q i row. (q, i) \<in> set items \<Longrightarrow> row \<in> set sims \<Longrightarrow> i < length row"
  shows "\<exists>m. node_to_log_p_right_items sims acc items = Inr m
     \<and> (\<forall>q. q \<in> fst ` set items \<longrightarrow> (\<exists>v. m q = Some v \<and> length v = length sims))
     \<and> (\<forall>q. q \<notin> fst ` set items \<longrightarrow> m q = acc q)"
  using assms
proof (induction items arbitrary: acc)
  case Nil
  then show ?case by simp
next
  case (Cons a items)
  obtain n i where a: "a = (n, i)" by (cases a)
  define col where "col = map (\<lambda>row. row ! i) sims"
  define acc' where "acc' = acc(n \<mapsto> map (\<lambda>s. Fin (- s)) col)"
  have sc: "select_column sims i = Inr col"
    unfolding col_def
  proof (rule select_column_ok)
    fix row assume "row \<in> set sims"
    then show "i < length row" using Cons.prems [of n i row] a by simp
  qed
  have step: "node_to_log_p_right_items sims acc (a # items)
      = node_to_log_p_right_items sims acc' items"
    by (simp add: a sc acc'_def)
  have "\<exists>m. node_to_log_p_right_items sims acc' items = Inr m
     \<and> (\<forall>q. q \<in> fst ` set items \<longrightarrow> (\<exists>v. m q = Some v \<and> length v = length sims))
     \<and> (\<forall>q. q \<notin> fst ` set items \<longrightarrow> m q = acc' q)"
  proof (rule Cons.IH)
    fix q j row assume "(q, j) \<in> set items" "row \<in> set sims"
    then show "j < length row" using Cons.prems [of q j row] by simp
  qed
  then obtain m where all: "node_to_log_p_right_items sims acc' items = Inr m
     \<and> (\<forall>q. q \<in> fst ` set items \<longrightarrow> (\<exists>v. m q = Some v \<and> length v = length sims))
     \<and> (\<forall>q. q \<notin> fst ` set items \<longrightarrow> m q = acc' q)"
    by (rule exE)
  note run = all [THEN conjunct1]
  note inn = all [THEN conjunct2, THEN conjunct1, rule_format]
  note out = all [THEN conjunct2, THEN conjunct2, rule_format]
  have c2: "\<exists>v. m q = Some v \<and> length v = length sims" if "q \<in> fst ` set (a # items)" for q
  proof (cases "q \<in> fst ` set items")
    case True
    then show ?thesis by (rule inn)
  next
    case False
    then have "q = n" using that a by simp
    moreover have "m q = acc' q" using False by (rule out)
    ultimately show ?thesis by (simp add: acc'_def col_def)
  qed
  have c3: "m q = acc q" if "q \<notin> fst ` set (a # items)" for q
  proof -
    have "q \<notin> fst ` set items" "q \<noteq> n" using that a by auto
    then have "m q = acc' q" "acc' q = acc q" using out by (simp_all add: acc'_def)
    then show ?thesis by simp
  qed
  show ?case
  proof (intro exI conjI)
    show "node_to_log_p_right_items sims acc (a # items) = Inr m" using step run by simp
    show "\<forall>q. q \<in> fst ` set (a # items) \<longrightarrow> (\<exists>v. m q = Some v \<and> length v = length sims)"
      using c2 by blast
    show "\<forall>q. q \<notin> fst ` set (a # items) \<longrightarrow> m q = acc q" using c3 by blast
  qed
qed

lemma node_to_probs_from_p_right_entries:
  assumes int: "is_internal root_node"
    and lpr: "\<And>q. q \<in> set (descendant_internal_nodes root_node)
               \<Longrightarrow> \<exists>v. n2l q = Some v \<and> length v = n"
  shows "\<exists>res. node_to_probs_from_p_right n2l root_node = Inr res
     \<and> (\<forall>q \<in> set (descendants root_node). \<exists>pq. res q = Some pq
            \<and> length (log_p_arrival pq) = n \<and> log_p_right pq = n2l q)"
proof -
  have "[] \<in> set (descendant_internal_nodes root_node)"
    using int by (cases root_node) (simp_all add: is_internal_def)
  from lpr [OF this] obtain rv where rv: "n2l [] = Some rv" "length rv = n" by blast
  define rp where "rp = \<lparr>log_p_arrival = map (\<lambda>x. Fin 0) rv, log_p_right = Some rv\<rparr>"
  define result0 :: "node_ref \<rightharpoonup> NodeProbabilities" where "result0 = [[] \<mapsto> rp]"
  have run0: "node_to_probs_from_p_right n2l root_node
      = add_strict_descendants n2l root_node [] result0"
    by (simp add: node_to_probs_from_p_right_def rv result0_def rp_def)
  have "\<exists>res. add_strict_descendants n2l root_node [] result0 = Inr res
     \<and> (\<forall>k. (\<nexists>q. q \<noteq> [] \<and> k = [] @ q) \<longrightarrow> res k = result0 k)
     \<and> (\<forall>q \<in> set (descendants root_node). \<exists>pq. res ([] @ q) = Some pq
            \<and> length (log_p_arrival pq) = n \<and> log_p_right pq = n2l ([] @ q))
     \<and> (\<forall>q \<in> set (descendant_internal_nodes root_node). \<exists>pq pl pr' v.
            res ([] @ q) = Some pq \<and> log_p_right pq = Some v
            \<and> res ([] @ q @ [False]) = Some pl \<and> res ([] @ q @ [True]) = Some pr'
            \<and> log_p_arrival pl = map2 ladd (log_p_arrival pq) (map log1mexp v)
            \<and> log_p_arrival pr' = map2 ladd (log_p_arrival pq) v)
     \<and> dom res = dom result0 \<union> (\<lambda>q. [] @ q) ` set (descendants root_node)"
  proof (rule add_strict_descendants_ok)
    show "\<exists>v. n2l ([] @ q) = Some v \<and> length v = n"
      if "q \<in> set (descendant_internal_nodes root_node)" for q
      using lpr [OF that] by simp
    show "result0 [] = Some rp" by (simp add: result0_def)
    show "length (log_p_arrival rp) = n" using rv by (simp add: rp_def)
    show "log_p_right rp = n2l []" using rv by (simp add: rp_def)
  qed
  then obtain res where all: "add_strict_descendants n2l root_node [] result0 = Inr res
     \<and> (\<forall>k. (\<nexists>q. q \<noteq> [] \<and> k = [] @ q) \<longrightarrow> res k = result0 k)
     \<and> (\<forall>q \<in> set (descendants root_node). \<exists>pq. res ([] @ q) = Some pq
            \<and> length (log_p_arrival pq) = n \<and> log_p_right pq = n2l ([] @ q))
     \<and> (\<forall>q \<in> set (descendant_internal_nodes root_node). \<exists>pq pl pr' v.
            res ([] @ q) = Some pq \<and> log_p_right pq = Some v
            \<and> res ([] @ q @ [False]) = Some pl \<and> res ([] @ q @ [True]) = Some pr'
            \<and> log_p_arrival pl = map2 ladd (log_p_arrival pq) (map log1mexp v)
            \<and> log_p_arrival pr' = map2 ladd (log_p_arrival pq) v)
     \<and> dom res = dom result0 \<union> (\<lambda>q. [] @ q) ` set (descendants root_node)"
    by (rule exE)
  note run = all [THEN conjunct1]
  note ent = all [THEN conjunct2, THEN conjunct2, THEN conjunct1, rule_format, unfolded append_Nil]
  show ?thesis
  proof (intro exI conjI)
    show "node_to_probs_from_p_right n2l root_node = Inr res" using run0 run by simp
    show "\<forall>q \<in> set (descendants root_node). \<exists>pq. res q = Some pq
            \<and> length (log_p_arrival pq) = n \<and> log_p_right pq = n2l q"
      using ent by blast
  qed
qed

lemma get_node_to_probs_ok:
  assumes ok: "section_ok ts" and sims: "similarities_ok ts similarities"
  shows "\<exists>ntp. get_node_to_probs ts similarities = Inr ntp
     \<and> (\<forall>q \<in> set (descendants (tree_root ts)). \<exists>pq. ntp q = Some pq
            \<and> length (log_p_arrival pq) = length similarities)
     \<and> (\<forall>q \<in> set (descendant_internal_nodes (tree_root ts)). \<exists>pq v. ntp q = Some pq
            \<and> log_p_right pq = Some v \<and> length v = length similarities)"
proof -
  define din where "din = descendant_internal_nodes (tree_root ts)"
  have items: "node_to_proto_idx ts = zip din [0..<length din]"
    using ok by (simp add: section_ok_def din_def)
  have len_items: "length (node_to_proto_idx ts) = length din" by (simp add: items)
  have fst_items: "fst ` set (node_to_proto_idx ts) = set din"
  proof -
    have "map fst (zip din [0..<length din]) = din" by (simp add: map_fst_zip)
    then have "set (map fst (node_to_proto_idx ts)) = set din" by (simp add: items)
    then show ?thesis by simp
  qed
  have "\<exists>m. node_to_log_p_right_items similarities Map.empty (node_to_proto_idx ts) = Inr m
     \<and> (\<forall>q. q \<in> fst ` set (node_to_proto_idx ts)
            \<longrightarrow> (\<exists>v. m q = Some v \<and> length v = length similarities))
     \<and> (\<forall>q. q \<notin> fst ` set (node_to_proto_idx ts) \<longrightarrow> m q = Map.empty q)"
  proof (rule node_to_log_p_right_items_ok)
    fix q i row assume qi: "(q, i) \<in> set (node_to_proto_idx ts)" and row: "row \<in> set similarities"
    have "i \<in> set [0..<length din]" using qi unfolding items by (rule set_zip_rightD)
    then have "i < length din" by simp
    moreover have "length row = length din" using sims row len_items
      by (simp add: similarities_ok_def)
    ultimately show "i < length row" by simp
  qed
  then obtain m where all: "node_to_log_p_right_items similarities Map.empty (node_to_proto_idx ts) = Inr m
     \<and> (\<forall>q. q \<in> fst ` set (node_to_proto_idx ts)
            \<longrightarrow> (\<exists>v. m q = Some v \<and> length v = length similarities))
     \<and> (\<forall>q. q \<notin> fst ` set (node_to_proto_idx ts) \<longrightarrow> m q = Map.empty q)"
    by (rule exE)
  note m_run = all [THEN conjunct1]
  note m_in = all [THEN conjunct2, THEN conjunct1, rule_format, unfolded fst_items]
  note m_out = all [THEN conjunct2, THEN conjunct2, rule_format, unfolded fst_items]
  have "\<exists>res. node_to_probs_from_p_right m (tree_root ts) = Inr res
     \<and> (\<forall>q \<in> set (descendants (tree_root ts)). \<exists>pq. res q = Some pq
            \<and> length (log_p_arrival pq) = length similarities \<and> log_p_right pq = m q)"
  proof (rule node_to_probs_from_p_right_entries)
    show "is_internal (tree_root ts)" using ok by (simp add: section_ok_def)
    show "\<exists>v. m q = Some v \<and> length v = length similarities"
      if "q \<in> set (descendant_internal_nodes (tree_root ts))" for q
      using m_in [of q] that by (simp add: din_def)
  qed
  then obtain res where all2: "node_to_probs_from_p_right m (tree_root ts) = Inr res
     \<and> (\<forall>q \<in> set (descendants (tree_root ts)). \<exists>pq. res q = Some pq
            \<and> length (log_p_arrival pq) = length similarities \<and> log_p_right pq = m q)"
    by (rule exE)
  note r_run = all2 [THEN conjunct1]
  note r_ent = all2 [THEN conjunct2, rule_format]
  have run: "get_node_to_probs ts similarities = Inr res"
    by (simp add: get_node_to_probs_def get_node_to_log_p_right_def m_run r_run)
  have e1: "\<exists>pq. res q = Some pq \<and> length (log_p_arrival pq) = length similarities"
    if "q \<in> set (descendants (tree_root ts))" for q
    using r_ent [OF that] by blast
  have e2: "\<exists>pq v. res q = Some pq \<and> log_p_right pq = Some v \<and> length v = length similarities"
    if q: "q \<in> set (descendant_internal_nodes (tree_root ts))" for q
  proof -
    have "q \<in> set (descendants (tree_root ts))"
      using q internal_nodes_are_descendants by blast
    from r_ent [OF this] obtain pq where pq: "res q = Some pq" "log_p_right pq = m q" by blast
    have "q \<in> set din" using q by (simp add: din_def)
    from m_in [OF this] obtain v where "m q = Some v" "length v = length similarities" by blast
    then show ?thesis using pq by simp
  qed
  show ?thesis
  proof (intro exI conjI)
    show "get_node_to_probs ts similarities = Inr res" by (rule run)
    show "\<forall>q \<in> set (descendants (tree_root ts)). \<exists>pq. res q = Some pq
            \<and> length (log_p_arrival pq) = length similarities"
      using e1 by blast
    show "\<forall>q \<in> set (descendant_internal_nodes (tree_root ts)). \<exists>pq v. res q = Some pq
            \<and> log_p_right pq = Some v \<and> length v = length similarities"
      using e2 by blast
  qed
qed

lemma leaves_are_descendants: "set (leaves t) \<subseteq> set (descendants t)"
  by (induction t) auto

lemma collect_ok_ex:
  assumes "\<And>x. x \<in> set xs \<Longrightarrow> \<exists>y. f x = Inr y \<and> P x y"
  shows "\<exists>ys. collect f xs = Inr ys \<and> length ys = length xs
     \<and> (\<forall>i<length xs. f (xs ! i) = Inr (ys ! i) \<and> P (xs ! i) (ys ! i))"
  using assms
proof (induction xs)
  case Nil
  then show ?case by simp
next
  case (Cons x xs)
  from Cons.prems [of x] obtain y where y: "f x = Inr y" "P x y" by auto
  have "\<exists>ys. collect f xs = Inr ys \<and> length ys = length xs
     \<and> (\<forall>i<length xs. f (xs ! i) = Inr (ys ! i) \<and> P (xs ! i) (ys ! i))"
  proof (rule Cons.IH)
    fix z assume "z \<in> set xs"
    then show "\<exists>y. f z = Inr y \<and> P z y" using Cons.prems [of z] by simp
  qed
  then obtain ys where all: "collect f xs = Inr ys \<and> length ys = length xs
     \<and> (\<forall>i<length xs. f (xs ! i) = Inr (ys ! i) \<and> P (xs ! i) (ys ! i))"
    by (rule exE)
  note run = all [THEN conjunct1]
  note len = all [THEN conjunct2, THEN conjunct1]
  note nth = all [THEN conjunct2, THEN conjunct2, rule_format]
  have n: "f ((x # xs) ! i) = Inr ((y # ys) ! i) \<and> P ((x # xs) ! i) ((y # ys) ! i)"
    if "i < length (x # xs)" for i
  proof (cases i)
    case 0
    then show ?thesis using y by simp
  next
    case (Suc j)
    then have "j < length xs" using that by simp
    from nth [OF this] show ?thesis using Suc by simp
  qed
  show ?case
  proof (intro exI conjI)
    show "collect f (x # xs) = Inr (y # ys)" using y(1) run by simp
    show "length (y # ys) = length (x # xs)" using len by simp
    show "\<forall>i<length (x # xs). f ((x # xs) ! i) = Inr ((y # ys) ! i)
            \<and> P ((x # xs) ! i) ((y # ys) ! i)" using n by blast
  qed
qed

lemma greedy_walk_reaches_leaf:
  assumes "\<And>q. q \<in> set (descendant_internal_nodes t)
             \<Longrightarrow> \<exists>pr v. ntp (cur @ q) = Some pr \<and> log_p_right pr = Some v \<and> i < length v"
  shows "\<exists>lf. lf \<in> set (leaves t) \<and> TreeSection_get_leaf_for_sample ntp i t cur = Inr (cur @ lf)"
  using assms
proof (induction t arbitrary: cur)
  case Leaf
  then show ?case by simp
next
  case (InternalNode l r)
  from InternalNode.prems [of "[]"] obtain pr v where pr: "ntp cur = Some pr"
    "log_p_right pr = Some v" "i < length v" by auto
  have lpl: "log_p_left pr = Inr (map log1mexp v)" using pr(2) by (simp add: log_p_left_def)
  show ?case
  proof (cases "neg_log_2 < map log1mexp v ! i")
    case True
    have step: "TreeSection_get_leaf_for_sample ntp i (InternalNode l r) cur
        = TreeSection_get_leaf_for_sample ntp i l (cur @ [False])"
      using pr lpl True by simp
    have "\<exists>lf. lf \<in> set (leaves l)
        \<and> TreeSection_get_leaf_for_sample ntp i l (cur @ [False]) = Inr ((cur @ [False]) @ lf)"
    proof (rule InternalNode.IH(1))
      fix q assume "q \<in> set (descendant_internal_nodes l)"
      then show "\<exists>pr v. ntp ((cur @ [False]) @ q) = Some pr \<and> log_p_right pr = Some v
                   \<and> i < length v"
        using InternalNode.prems [of "False # q"] by simp
    qed
    then obtain lf where lf: "lf \<in> set (leaves l)"
      "TreeSection_get_leaf_for_sample ntp i l (cur @ [False]) = Inr ((cur @ [False]) @ lf)"
      by blast
    have "False # lf \<in> set (leaves (InternalNode l r))" using lf(1) by simp
    moreover have "TreeSection_get_leaf_for_sample ntp i (InternalNode l r) cur
        = Inr (cur @ False # lf)" using step lf(2) by simp
    ultimately show ?thesis by blast
  next
    case False
    have step: "TreeSection_get_leaf_for_sample ntp i (InternalNode l r) cur
        = TreeSection_get_leaf_for_sample ntp i r (cur @ [True])"
      using pr lpl False by simp
    have "\<exists>lf. lf \<in> set (leaves r)
        \<and> TreeSection_get_leaf_for_sample ntp i r (cur @ [True]) = Inr ((cur @ [True]) @ lf)"
    proof (rule InternalNode.IH(2))
      fix q assume "q \<in> set (descendant_internal_nodes r)"
      then show "\<exists>pr v. ntp ((cur @ [True]) @ q) = Some pr \<and> log_p_right pr = Some v
                   \<and> i < length v"
        using InternalNode.prems [of "True # q"] by simp
    qed
    then obtain lf where lf: "lf \<in> set (leaves r)"
      "TreeSection_get_leaf_for_sample ntp i r (cur @ [True]) = Inr ((cur @ [True]) @ lf)"
      by blast
    have "True # lf \<in> set (leaves (InternalNode l r))" using lf(1) by simp
    moreover have "TreeSection_get_leaf_for_sample ntp i (InternalNode l r) cur
        = Inr (cur @ True # lf)" using step lf(2) by simp
    ultimately show ?thesis by blast
  qed
qed

lemma greedily_ok:
  assumes root: "ntp [] = Some rp" "length (log_p_arrival rp) = n"
    and int: "\<And>q. q \<in> set (descendant_internal_nodes t)
             \<Longrightarrow> \<exists>pr v. ntp q = Some pr \<and> log_p_right pr = Some v \<and> length v = n"
  shows "\<exists>pl. TreeSection_get_predicting_leaves_greedily t ntp = Inr pl \<and> length pl = n
     \<and> (\<forall>i<n. TreeSection_get_leaf_for_sample ntp i t [] = Inr (pl ! i)
                \<and> pl ! i \<in> set (leaves t))"
proof -
  have "\<exists>ys. collect (\<lambda>i. TreeSection_get_leaf_for_sample ntp i t []) [0..<n] = Inr ys
     \<and> length ys = length [0..<n]
     \<and> (\<forall>i<length [0..<n]. TreeSection_get_leaf_for_sample ntp ([0..<n] ! i) t [] = Inr (ys ! i)
            \<and> ys ! i \<in> set (leaves t))"
  proof (rule collect_ok_ex [where P = "\<lambda>i y. y \<in> set (leaves t)"])
    fix i assume "i \<in> set [0..<n]"
    then have i: "i < n" by simp
    have "\<exists>lf. lf \<in> set (leaves t)
        \<and> TreeSection_get_leaf_for_sample ntp i t [] = Inr ([] @ lf)"
    proof (rule greedy_walk_reaches_leaf)
      fix q assume "q \<in> set (descendant_internal_nodes t)"
      from int [OF this] obtain pr v where "ntp q = Some pr" "log_p_right pr = Some v"
        "length v = n" by blast
      then show "\<exists>pr v. ntp ([] @ q) = Some pr \<and> log_p_right pr = Some v \<and> i < length v"
        using i by simp
    qed
    then show "\<exists>y. TreeSection_get_leaf_for_sample ntp i t [] = Inr y \<and> y \<in> set (leaves t)"
      by auto
  qed
  then obtain pl where all: "collect (\<lambda>i. TreeSection_get_leaf_for_sample ntp i t []) [0..<n] = Inr pl
     \<and> length pl = length [0..<n]
     \<and> (\<forall>i<length [0..<n]. TreeSection_get_leaf_for_sample ntp ([0..<n] ! i) t [] = Inr (pl ! i)
            \<and> pl ! i \<in> set (leaves t))"
    by (rule exE)
  note run = all [THEN conjunct1]
  note len = all [THEN conjunct2, THEN conjunct1]
  note nth = all [THEN conjunct2, THEN conjunct2, rule_format]
  have n: "TreeSection_get_leaf_for_sample ntp i t [] = Inr (pl ! i) \<and> pl ! i \<in> set (leaves t)"
    if "i < n" for i
  proof -
    have "i < length [0..<n]" using that by simp
    from nth [OF this] show ?thesis using that by simp
  qed
  show ?thesis
  proof (intro exI conjI)
    show "TreeSection_get_predicting_leaves_greedily t ntp = Inr pl"
      using root run by (simp add: TreeSection_get_predicting_leaves_greedily_def batch_size_def)
    show "length pl = n" using len by simp
    show "\<forall>i<n. TreeSection_get_leaf_for_sample ntp i t [] = Inr (pl ! i)
            \<and> pl ! i \<in> set (leaves t)" using n by blast
  qed
qed

lemma cat_rows_ok:
  assumes "rs \<noteq> []" "\<And>r. r \<in> set rs \<Longrightarrow> length r = c"
  shows "cat_rows rs = Inr rs"
proof -
  from assms(1) obtain r rest where rs: "rs = r # rest" by (cases rs) auto
  have "\<forall>r' \<in> set rest. length r' = length r" using assms(2) rs by simp
  then show ?thesis by (simp add: cat_rows_def rs)
qed

lemma predicting_leaves_ok:
  assumes ent: "\<And>q. q \<in> set (descendants t)
                  \<Longrightarrow> \<exists>pq. ntp q = Some pq \<and> length (log_p_arrival pq) = n"
    and int: "\<And>q. q \<in> set (descendant_internal_nodes t)
                  \<Longrightarrow> \<exists>pq v. ntp q = Some pq \<and> log_p_right pq = Some v \<and> length v = n"
    and strat: "strategy = ''sample_max'' \<or> strategy = ''greedy''"
  shows "\<exists>pl. TreeSection_get_predicting_leaves t ntp strategy = Inr pl \<and> length pl = n
     \<and> (\<forall>i<n. pl ! i \<in> set (leaves t)
          \<and> (strategy = ''greedy''
                \<longrightarrow> TreeSection_get_leaf_for_sample ntp i t [] = Inr (pl ! i))
          \<and> (strategy = ''sample_max'' \<longrightarrow> first_max_leaf t ntp i (pl ! i)))"
proof (cases "strategy = ''greedy''")
  case True
  from ent [OF descendants_has_root] obtain rp where rp: "ntp [] = Some rp"
    "length (log_p_arrival rp) = n" by blast
  have "\<exists>pl. TreeSection_get_predicting_leaves_greedily t ntp = Inr pl \<and> length pl = n
     \<and> (\<forall>i<n. TreeSection_get_leaf_for_sample ntp i t [] = Inr (pl ! i)
                \<and> pl ! i \<in> set (leaves t))"
    by (rule greedily_ok [of ntp rp n t]) (rule rp(1), rule rp(2), erule int)
  then obtain pl where all: "TreeSection_get_predicting_leaves_greedily t ntp = Inr pl \<and> length pl = n
     \<and> (\<forall>i<n. TreeSection_get_leaf_for_sample ntp i t [] = Inr (pl ! i)
                \<and> pl ! i \<in> set (leaves t))"
    by (rule exE)
  note run = all [THEN conjunct1]
  note len = all [THEN conjunct2, THEN conjunct1]
  note nth = all [THEN conjunct2, THEN conjunct2, rule_format]
  show ?thesis
  proof (intro exI conjI)
    show "TreeSection_get_predicting_leaves t ntp strategy = Inr pl"
      using True run by (simp add: TreeSection_get_predicting_leaves_def)
    show "length pl = n" by (rule len)
    show "\<forall>i<n. pl ! i \<in> set (leaves t)
          \<and> (strategy = ''greedy''
                \<longrightarrow> TreeSection_get_leaf_for_sample ntp i t [] = Inr (pl ! i))
          \<and> (strategy = ''sample_max'' \<longrightarrow> first_max_leaf t ntp i (pl ! i))"
      using nth True by simp
  qed
next
  case False
  then have sm: "strategy = ''sample_max''" using strat by simp
  have h: "\<forall>l \<in> set (leaves t). \<exists>pr. ntp l = Some pr \<and> length (log_p_arrival pr) = n"
    using ent leaves_are_descendants by blast
  from max_p_arrival_leaves_first_max [OF leaves_nonempty h]
  obtain pl where all: "TreeSection_get_max_p_arrival_leaves (leaves t) ntp = Inr pl \<and> length pl = n
    \<and> (\<forall>b<n. \<exists>k<length (leaves t). pl ! b = leaves t ! k
          \<and> (\<forall>j<length (leaves t). arrival_at ntp (leaves t ! j) b \<le> arrival_at ntp (leaves t ! k) b)
          \<and> (\<forall>j<k. arrival_at ntp (leaves t ! j) b < arrival_at ntp (leaves t ! k) b))"
    by blast
  note run = all [THEN conjunct1]
  note len = all [THEN conjunct2, THEN conjunct1]
  note nth = all [THEN conjunct2, THEN conjunct2, rule_format]
  have fm: "first_max_leaf t ntp i (pl ! i)" if "i < n" for i
    unfolding first_max_leaf_def using nth [OF that] .
  have mem: "pl ! i \<in> set (leaves t)" if "i < n" for i
  proof -
    from nth [OF that] obtain k where "k < length (leaves t)" "pl ! i = leaves t ! k" by blast
    then show ?thesis by simp
  qed
  show ?thesis
  proof (intro exI conjI)
    show "TreeSection_get_predicting_leaves t ntp strategy = Inr pl"
      using sm run by (simp add: TreeSection_get_predicting_leaves_def)
    show "length pl = n" by (rule len)
    show "\<forall>i<n. pl ! i \<in> set (leaves t)
          \<and> (strategy = ''greedy''
                \<longrightarrow> TreeSection_get_leaf_for_sample ntp i t [] = Inr (pl ! i))
          \<and> (strategy = ''sample_max'' \<longrightarrow> first_max_leaf t ntp i (pl ! i))"
      using fm mem False by simp
  qed
qed

text \<open>
  C5. On a well-formed section and a similarity tensor that fits it, \<open>forward\<close> raises a
  \<open>ValueError\<close> for every strategy name other than \<open>distributed\<close>, \<open>sample_max\<close> and
  \<open>greedy\<close>, and for \<open>sample_max\<close> and \<open>greedy\<close> whenever the model is in training mode;
  \<open>distributed\<close> is accepted whatever the mode and yields \<open>None\<close> for the predicting leaves.
\<close>

theorem forward_rejects_invalid_strategy:
  assumes ok: "section_ok (tree_section self)"
    and sims: "similarities_ok (tree_section self) (ProtoBase_forward (proto_base self) x)"
  shows "(strategy \<noteq> ''distributed'' \<and> strategy \<noteq> ''sample_max'' \<and> strategy \<noteq> ''greedy''
            \<longrightarrow> ProtoTree_forward y_logits root_forward self x strategy = Inl ValueError)
     \<and> (training self \<and> (strategy = ''sample_max'' \<or> strategy = ''greedy'')
            \<longrightarrow> ProtoTree_forward y_logits root_forward self x strategy = Inl ValueError)
     \<and> (\<exists>logits ntp. ProtoTree_forward y_logits root_forward self x ''distributed''
            = Inr (logits, ntp, None))"
proof -
  from get_node_to_probs_ok [OF ok sims]
  obtain ntp where ntp: "get_node_to_probs (tree_section self)
      (ProtoBase_forward (proto_base self) x) = Inr ntp" by blast
  have a: "ProtoTree_forward y_logits root_forward self x strategy = Inl ValueError"
    if "strategy \<noteq> ''distributed''" "strategy \<noteq> ''sample_max''" "strategy \<noteq> ''greedy''"
    using that ntp by (simp add: ProtoTree_forward_def)
  have b: "ProtoTree_forward y_logits root_forward self x strategy = Inl ValueError"
    if "training self" "strategy = ''sample_max'' \<or> strategy = ''greedy''"
    using that ntp by (auto simp add: ProtoTree_forward_def)
  have c: "ProtoTree_forward y_logits root_forward self x ''distributed''
      = Inr (root_forward (tree_section self) ntp, ntp, None)"
    using ntp by (simp add: ProtoTree_forward_def)
  show ?thesis using a b c by blast
qed

text \<open>
  On every non-empty batch \<open>forward\<close> keeps the promise of its docstring: under
  \<open>sample_max\<close> or \<open>greedy\<close>, where the \<open>match\<close> admits them, it returns one leaf
  reference per sample, in input order (the \<open>i\<close>-th leaf is the one the strategy selects
  for sample \<open>i\<close>), each a leaf of the tree, and the logits are the rows \<open>y_logits\<close> of the
  selected leaves; under \<open>distributed\<close> it returns \<open>None\<close> in place of the list. The
  leaves' logit vectors all have \<open>num_classes\<close> entries.
\<close>

lemma forward_returns_one_leaf_per_sample:
  assumes ok: "section_ok (tree_section self)"
    and sims: "similarities_ok (tree_section self) (ProtoBase_forward (proto_base self) x)"
    and len: "length (ProtoBase_forward (proto_base self) x) = length x"
  shows "(\<exists>logits ntp. ProtoTree_forward y_logits root_forward self x ''distributed''
            = Inr (logits, ntp, None))
     \<and> (\<not> training self \<longrightarrow> strategy = ''sample_max'' \<or> strategy = ''greedy'' \<longrightarrow> x \<noteq> [] \<longrightarrow>
        (\<forall>l \<in> set (leaves (tree_root (tree_section self))).
            length (y_logits (leaf_store (tree_section self) l)) = num_classes (tree_section self)) \<longrightarrow>
        (\<exists>logits ntp pl. ProtoTree_forward y_logits root_forward self x strategy
              = Inr (logits, ntp, Some pl)
           \<and> length pl = length x
           \<and> logits = map (\<lambda>l. y_logits (leaf_store (tree_section self) l)) pl
           \<and> (\<forall>i<length x. pl ! i \<in> set (leaves (tree_root (tree_section self)))
                \<and> (strategy = ''greedy''
                      \<longrightarrow> TreeSection_get_leaf_for_sample ntp i (tree_root (tree_section self)) []
                            = Inr (pl ! i))
                \<and> (strategy = ''sample_max''
                      \<longrightarrow> first_max_leaf (tree_root (tree_section self)) ntp i (pl ! i)))))"
proof -
  define ts where "ts = tree_section self"
  define t where "t = tree_root ts"
  define n where "n = length x"
  from get_node_to_probs_ok [OF ok sims]
  obtain ntp where all: "get_node_to_probs (tree_section self)
        (ProtoBase_forward (proto_base self) x) = Inr ntp
     \<and> (\<forall>q \<in> set (descendants (tree_root (tree_section self))). \<exists>pq. ntp q = Some pq
            \<and> length (log_p_arrival pq) = length (ProtoBase_forward (proto_base self) x))
     \<and> (\<forall>q \<in> set (descendant_internal_nodes (tree_root (tree_section self))). \<exists>pq v.
            ntp q = Some pq \<and> log_p_right pq = Some v
            \<and> length v = length (ProtoBase_forward (proto_base self) x))"
    by blast
  note ntp = all [THEN conjunct1]
  note ent = all [THEN conjunct2, THEN conjunct1, rule_format, unfolded len, folded ts_def t_def n_def]
  note int = all [THEN conjunct2, THEN conjunct2, rule_format, unfolded len, folded ts_def t_def n_def]
  have dist: "ProtoTree_forward y_logits root_forward self x ''distributed''
      = Inr (root_forward (tree_section self) ntp, ntp, None)"
    using ntp by (simp add: ProtoTree_forward_def)
  have hard: "\<exists>logits ntp pl. ProtoTree_forward y_logits root_forward self x strategy
              = Inr (logits, ntp, Some pl)
           \<and> length pl = n
           \<and> logits = map (\<lambda>l. y_logits (leaf_store ts l)) pl
           \<and> (\<forall>i<n. pl ! i \<in> set (leaves t)
                \<and> (strategy = ''greedy''
                      \<longrightarrow> TreeSection_get_leaf_for_sample ntp i t [] = Inr (pl ! i))
                \<and> (strategy = ''sample_max'' \<longrightarrow> first_max_leaf t ntp i (pl ! i)))"
    if mode: "\<not> training self" and strat: "strategy = ''sample_max'' \<or> strategy = ''greedy''"
      and ne: "x \<noteq> []"
      and yl: "\<forall>l \<in> set (leaves t). length (y_logits (leaf_store ts l)) = num_classes ts"
  proof -
    have "\<exists>pl. TreeSection_get_predicting_leaves t ntp strategy = Inr pl \<and> length pl = n
     \<and> (\<forall>i<n. pl ! i \<in> set (leaves t)
          \<and> (strategy = ''greedy''
                \<longrightarrow> TreeSection_get_leaf_for_sample ntp i t [] = Inr (pl ! i))
          \<and> (strategy = ''sample_max'' \<longrightarrow> first_max_leaf t ntp i (pl ! i)))"
      by (rule predicting_leaves_ok [of t ntp n strategy]) (erule ent, erule int, rule strat)
    then obtain pl where pall: "TreeSection_get_predicting_leaves t ntp strategy = Inr pl \<and> length pl = n
     \<and> (\<forall>i<n. pl ! i \<in> set (leaves t)
          \<and> (strategy = ''greedy''
                \<longrightarrow> TreeSection_get_leaf_for_sample ntp i t [] = Inr (pl ! i))
          \<and> (strategy = ''sample_max'' \<longrightarrow> first_max_leaf t ntp i (pl ! i)))"
      by (rule exE)
    note prun = pall [THEN conjunct1]
    note plen = pall [THEN conjunct2, THEN conjunct1]
    note pnth = pall [THEN conjunct2, THEN conjunct2]
    have mem: "l \<in> set (leaves t)" if "l \<in> set pl" for l
    proof -
      from that obtain i where "i < length pl" "l = pl ! i" by (auto simp: in_set_conv_nth)
      then show ?thesis using pnth plen by simp
    qed
    have "cat_rows (map (\<lambda>l. y_logits (leaf_store ts l)) pl)
        = Inr (map (\<lambda>l. y_logits (leaf_store ts l)) pl)"
    proof (rule cat_rows_ok)
      show "map (\<lambda>l. y_logits (leaf_store ts l)) pl \<noteq> []"
        using plen ne by (auto simp: n_def)
      show "length r = num_classes ts" if "r \<in> set (map (\<lambda>l. y_logits (leaf_store ts l)) pl)" for r
      proof -
        from that obtain l where "l \<in> set pl" "r = y_logits (leaf_store ts l)" by auto
        then show ?thesis using yl mem by simp
      qed
    qed
    moreover have "strategy \<noteq> ''distributed''" using strat by auto
    ultimately have "ProtoTree_forward y_logits root_forward self x strategy
        = Inr (map (\<lambda>l. y_logits (leaf_store ts l)) pl, ntp, Some pl)"
      using ntp prun mode strat by (simp add: ProtoTree_forward_def ts_def t_def)
    then show ?thesis using plen pnth by blast
  qed
  show ?thesis using dist hard unfolding ts_def t_def n_def by blast
qed

text \<open>
  C6. The claim asks, for every batch of size \<open>n\<close>, for a list of exactly \<open>n\<close> leaves
  under \<open>sample_max\<close> and \<open>greedy\<close>, and the docstring of \<open>forward\<close> promises a list of
  length \<open>batch_size\<close>. For the batch of size zero the code does not deliver it: on every
  well-formed section, outside training, \<open>get_predicting_leaves\<close> returns the empty list
  as it should, the list of per-leaf logit rows is then empty, \<open>torch.cat\<close> of it raises,
  and \<open>forward\<close> returns nothing. The \<open>distributed\<close> path returns on the same input.
\<close>

theorem forward_raises_on_empty_batch:
  assumes ok: "section_ok (tree_section self)"
    and empty: "ProtoBase_forward (proto_base self) [] = []"
    and mode: "\<not> training self"
    and strat: "strategy = ''sample_max'' \<or> strategy = ''greedy''"
  shows "ProtoTree_forward y_logits root_forward self [] strategy = Inl RuntimeError
     \<and> (\<exists>ntp. get_node_to_probs (tree_section self) (ProtoBase_forward (proto_base self) [])
                 = Inr ntp
            \<and> TreeSection_get_predicting_leaves (tree_root (tree_section self)) ntp strategy
                 = Inr [])
     \<and> (\<exists>logits ntp. ProtoTree_forward y_logits root_forward self [] ''distributed''
            = Inr (logits, ntp, None))"
proof -
  define ts where "ts = tree_section self"
  define t where "t = tree_root ts"
  have sims: "similarities_ok (tree_section self) (ProtoBase_forward (proto_base self) [])"
    by (simp add: similarities_ok_def empty)
  from get_node_to_probs_ok [OF ok sims]
  obtain ntp where all: "get_node_to_probs (tree_section self)
        (ProtoBase_forward (proto_base self) []) = Inr ntp
     \<and> (\<forall>q \<in> set (descendants (tree_root (tree_section self))). \<exists>pq. ntp q = Some pq
            \<and> length (log_p_arrival pq) = length (ProtoBase_forward (proto_base self) []))
     \<and> (\<forall>q \<in> set (descendant_internal_nodes (tree_root (tree_section self))). \<exists>pq v.
            ntp q = Some pq \<and> log_p_right pq = Some v
            \<and> length v = length (ProtoBase_forward (proto_base self) []))"
    by blast
  note ntp = all [THEN conjunct1]
  have len0: "length (ProtoBase_forward (proto_base self) []) = 0" by (simp add: empty)
  note ent = all [THEN conjunct2, THEN conjunct1, rule_format, unfolded len0, folded ts_def t_def]
  note int = all [THEN conjunct2, THEN conjunct2, rule_format, unfolded len0, folded ts_def t_def]
  have "\<exists>pl. TreeSection_get_predicting_leaves t ntp strategy = Inr pl \<and> length pl = 0
     \<and> (\<forall>i<0. pl ! i \<in> set (leaves t)
          \<and> (strategy = ''greedy''
                \<longrightarrow> TreeSection_get_leaf_for_sample ntp i t [] = Inr (pl ! i))
          \<and> (strategy = ''sample_max'' \<longrightarrow> first_max_leaf t ntp i (pl ! i)))"
    by (rule predicting_leaves_ok [of t ntp 0 strategy]) (erule ent, erule int, rule strat)
  then obtain pl where pall: "TreeSection_get_predicting_leaves t ntp strategy = Inr pl \<and> length pl = 0
     \<and> (\<forall>i<0. pl ! i \<in> set (leaves t)
          \<and> (strategy = ''greedy''
                \<longrightarrow> TreeSection_get_leaf_for_sample ntp i t [] = Inr (pl ! i))
          \<and> (strategy = ''sample_max'' \<longrightarrow> first_max_leaf t ntp i (pl ! i)))"
    by (rule exE)
  have pl: "pl = []" using pall [THEN conjunct2, THEN conjunct1] by simp
  have prun: "TreeSection_get_predicting_leaves (tree_root (tree_section self)) ntp strategy
      = Inr []"
    using pall [THEN conjunct1] pl by (simp add: ts_def t_def)
  have nd: "strategy \<noteq> ''distributed''" using strat by auto
  have raise: "ProtoTree_forward y_logits root_forward self [] strategy = Inl RuntimeError"
    using ntp prun mode strat nd by (simp add: ProtoTree_forward_def cat_rows_def)
  have dist: "ProtoTree_forward y_logits root_forward self [] ''distributed''
      = Inr (root_forward (tree_section self) ntp, ntp, None)"
    using ntp by (simp add: ProtoTree_forward_def)
  show ?thesis
  proof (intro conjI)
    show "ProtoTree_forward y_logits root_forward self [] strategy = Inl RuntimeError"
      by (rule raise)
    show "\<exists>ntp. get_node_to_probs (tree_section self) (ProtoBase_forward (proto_base self) [])
                 = Inr ntp
            \<and> TreeSection_get_predicting_leaves (tree_root (tree_section self)) ntp strategy
                 = Inr []"
      using ntp prun by blast
    show "\<exists>logits ntp. ProtoTree_forward y_logits root_forward self [] ''distributed''
            = Inr (logits, ntp, None)"
      using dist by blast
  qed
qed

section \<open>The forward pass on the depth-one model\<close>

lemma example_section_ok: "section_ok example_section"
  by (simp add: section_ok_def example_section_def is_internal_def)

lemma example_similarities_ok:
  "similarities_ok (tree_section (example_model m))
     (ProtoBase_forward (proto_base (example_model m)) x)"
  by (simp add: similarities_ok_def example_model_def example_section_def)

lemma example_node_to_probs:
  "get_node_to_probs example_section [[ln 2], [ln 3]]
     = Inr [[] \<mapsto> \<lparr>log_p_arrival = [Fin 0, Fin 0], log_p_right = Some [Fin (- ln 2), Fin (- ln 3)]\<rparr>,
            [False] \<mapsto> \<lparr>log_p_arrival = [Fin (ln (1/2)), Fin (ln (2/3))], log_p_right = None\<rparr>,
            [True] \<mapsto> \<lparr>log_p_arrival = [Fin (- ln 2), Fin (- ln 3)], log_p_right = None\<rparr>]"
proof -
  have "1 - inverse 2 = (1/2 :: real)" "1 - inverse 3 = (2/3 :: real)" by simp_all
  then show ?thesis
    by (simp add: get_node_to_probs_def get_node_to_log_p_right_def example_section_def
        select_column_def node_to_probs_from_p_right_def log_p_arrival_left_def
        log_p_arrival_right_def log_p_left_def tensor_add_def llog_def exp_minus)
qed

lemma example_greedy_leaves:
  "TreeSection_get_predicting_leaves (InternalNode Leaf Leaf)
     [[] \<mapsto> \<lparr>log_p_arrival = [Fin 0, Fin 0], log_p_right = Some [Fin (- ln 2), Fin (- ln 3)]\<rparr>,
      [False] \<mapsto> \<lparr>log_p_arrival = [Fin (ln (1/2)), Fin (ln (2/3))], log_p_right = None\<rparr>,
      [True] \<mapsto> \<lparr>log_p_arrival = [Fin (- ln 2), Fin (- ln 3)], log_p_right = None\<rparr>] ''greedy''
   = Inr [[True], [False]]"
proof -
  have "1 - inverse 2 = (1/2 :: real)" "1 - inverse 3 = (2/3 :: real)" by simp_all
  moreover have "ln (1/2) = - ln (2::real)" by (simp add: ln_div)
  moreover have "- ln 2 < ln (2/3 :: real)"
  proof -
    have "ln (1/2) < ln (2/3 :: real)" by (subst ln_less_cancel_iff) simp_all
    then show ?thesis by (simp add: ln_div)
  qed
  ultimately show ?thesis
    by (simp add: TreeSection_get_predicting_leaves_def
        TreeSection_get_predicting_leaves_greedily_def batch_size_def log_p_left_def llog_def
        exp_minus neg_log_2_def less_logval_def upt_rec [of 0 2] upt_rec [of 1 2])
qed

lemma forward_returns_one_leaf_per_sample_example:
  "map_sum id (\<lambda>(logits, ntp, pl). (logits, pl))
     (ProtoTree_forward example_y_logits example_root_forward (example_model False)
        [ln 2, ln 3] ''greedy'')
   = Inr ([[Fin 0, Fin 1], [Fin 1, Fin 0]], Some [[True], [False]])
   \<and> map_sum id (\<lambda>(logits, ntp, pl). pl)
     (ProtoTree_forward example_y_logits example_root_forward (example_model False)
        [ln 2, ln 3] ''distributed'')
   = Inr None"
proof -
  have ok: "section_ok (tree_section (example_model False))"
    using example_section_ok by (simp add: example_model_def)
  have len: "length (ProtoBase_forward (proto_base (example_model False)) [ln 2, ln 3])
      = length [ln 2, ln 3 :: real]"
    by (simp add: example_model_def)
  note inst = forward_returns_one_leaf_per_sample [OF ok example_similarities_ok len,
      where y_logits = example_y_logits and root_forward = example_root_forward
        and strategy = "''greedy''"]
  from inst [THEN conjunct1] obtain logits ntp where d:
    "ProtoTree_forward example_y_logits example_root_forward (example_model False)
        [ln 2, ln 3] ''distributed'' = Inr (logits, ntp, None)" by blast
  have yl: "\<forall>l \<in> set (leaves (tree_root (tree_section (example_model False)))).
      length (example_y_logits (leaf_store (tree_section (example_model False)) l))
        = num_classes (tree_section (example_model False))"
    by (simp add: example_model_def example_section_def example_y_logits_def)
  have m: "\<not> training (example_model False)" by (simp add: example_model_def)
  have st: "''greedy'' = ''sample_max'' \<or> ''greedy'' = ''greedy''" by simp
  have ne: "[ln 2, ln 3 :: real] \<noteq> []" by simp
  note hard = inst [THEN conjunct2, THEN mp, OF m, THEN mp, OF st, THEN mp, OF ne, THEN mp, OF yl]
  from hard obtain logits' ntp' pl where g:
    "ProtoTree_forward example_y_logits example_root_forward
      (example_model False) [ln 2, ln 3] ''greedy'' = Inr (logits', ntp', Some pl)" by blast
  have ev: "ProtoTree_forward example_y_logits example_root_forward (example_model False)
        [ln 2, ln 3] ''greedy''
      = Inr ([[Fin 0, Fin 1], [Fin 1, Fin 0]],
             [[] \<mapsto> \<lparr>log_p_arrival = [Fin 0, Fin 0], log_p_right = Some [Fin (- ln 2), Fin (- ln 3)]\<rparr>,
              [False] \<mapsto> \<lparr>log_p_arrival = [Fin (ln (1/2)), Fin (ln (2/3))], log_p_right = None\<rparr>,
              [True] \<mapsto> \<lparr>log_p_arrival = [Fin (- ln 2), Fin (- ln 3)], log_p_right = None\<rparr>],
             Some [[True], [False]])"
    using example_node_to_probs example_greedy_leaves
    by (simp add: ProtoTree_forward_def example_model_def example_section_def
        example_y_logits_def cat_rows_def)
  show ?thesis using d g ev by simp
qed

theorem forward_raises_on_empty_batch_witness:
  "ProtoTree_forward example_y_logits example_root_forward
     (example_model False) [] ''sample_max'' = Inl RuntimeError
   \<and> ProtoTree_forward example_y_logits example_root_forward
     (example_model False) [] ''greedy'' = Inl RuntimeError
   \<and> map_sum id (\<lambda>(logits, ntp, pl). pl)
       (ProtoTree_forward example_y_logits example_root_forward
          (example_model False) [] ''distributed'') = Inr None"
proof -
  have ok: "section_ok (tree_section (example_model False))"
    using example_section_ok by (simp add: example_model_def)
  have empty: "ProtoBase_forward (proto_base (example_model False)) [] = []"
    by (simp add: example_model_def)
  have mode: "\<not> training (example_model False)" by (simp add: example_model_def)
  note sm = forward_raises_on_empty_batch [OF ok empty mode,
      where y_logits = example_y_logits and root_forward = example_root_forward
        and strategy = "''sample_max''"]
  note gr = forward_raises_on_empty_batch [OF ok empty mode,
      where y_logits = example_y_logits and root_forward = example_root_forward
        and strategy = "''greedy''"]
  have a: "ProtoTree_forward example_y_logits example_root_forward
     (example_model False) [] ''sample_max'' = Inl RuntimeError"
    using sm [THEN conjunct1] by simp
  have b: "ProtoTree_forward example_y_logits example_root_forward
     (example_model False) [] ''greedy'' = Inl RuntimeError"
    using gr [THEN conjunct1] by simp
  from gr [THEN conjunct2, THEN conjunct2] obtain logits ntp where
    "ProtoTree_forward example_y_logits example_root_forward (example_model False) []
        ''distributed'' = Inr (logits, ntp, None)" by blast
  then show ?thesis using a b by simp
qed

theorem forward_rejects_invalid_strategy_witness:
  "ProtoTree_forward example_y_logits example_root_forward (example_model True) [ln 2]
     ''greedy'' = Inl ValueError
   \<and> ProtoTree_forward example_y_logits example_root_forward (example_model True) [ln 2]
     ''sample_max'' = Inl ValueError
   \<and> ProtoTree_forward example_y_logits example_root_forward (example_model False) [ln 2]
     ''nearest'' = Inl ValueError
   \<and> map_sum id (\<lambda>(logits, ntp, pl). pl)
     (ProtoTree_forward example_y_logits example_root_forward (example_model True) [ln 2]
        ''distributed'') = Inr None"
proof -
  have ok: "section_ok (tree_section (example_model m))" for m
    using example_section_ok by (simp add: example_model_def)
  have tr: "training (example_model True)" by (simp add: example_model_def)
  note t1 = forward_rejects_invalid_strategy [OF ok [of True]
      example_similarities_ok [of True "[ln 2]"],
      where y_logits = example_y_logits and root_forward = example_root_forward
        and strategy = "''greedy''"]
  note t2 = forward_rejects_invalid_strategy [OF ok [of True]
      example_similarities_ok [of True "[ln 2]"],
      where y_logits = example_y_logits and root_forward = example_root_forward
        and strategy = "''sample_max''"]
  note t3 = forward_rejects_invalid_strategy [OF ok [of False]
      example_similarities_ok [of False "[ln 2]"],
      where y_logits = example_y_logits and root_forward = example_root_forward
        and strategy = "''nearest''"]
  have a: "ProtoTree_forward example_y_logits example_root_forward (example_model True) [ln 2]
     ''greedy'' = Inl ValueError"
    using t1 [THEN conjunct2, THEN conjunct1] tr by simp
  have b: "ProtoTree_forward example_y_logits example_root_forward (example_model True) [ln 2]
     ''sample_max'' = Inl ValueError"
    using t2 [THEN conjunct2, THEN conjunct1] tr by simp
  have c: "ProtoTree_forward example_y_logits example_root_forward (example_model False) [ln 2]
     ''nearest'' = Inl ValueError"
    using t3 [THEN conjunct1] by simp
  from t1 [THEN conjunct2, THEN conjunct2] obtain logits ntp where
    "ProtoTree_forward example_y_logits example_root_forward (example_model True) [ln 2]
        ''distributed'' = Inr (logits, ntp, None)" by blast
  then show ?thesis using a b c by simp
qed

section \<open>The leaf distribution update\<close>

lemma distinct_leaves: "distinct (leaves t)"
proof (induction t)
  case Leaf
  then show ?case by simp
next
  case (InternalNode l r)
  have "distinct (map ((#) False) (leaves l))" "distinct (map ((#) True) (leaves r))"
    using InternalNode.IH by (simp_all add: distinct_map)
  moreover have "set (map ((#) False) (leaves l)) \<inter> set (map ((#) True) (leaves r)) = {}"
    by auto
  ultimately show ?case by simp
qed

lemma dist_update_vector_ok:
  assumes "length ytl = length arrival" "length logits = length arrival"
    and "\<forall>row \<in> set ytl. length row = length leaf_logits"
    and "\<forall>row \<in> set logits. length row = length leaf_logits"
  shows "\<exists>upd. dist_update_vector arrival leaf_logits ytl logits = Inr upd
     \<and> length upd = length leaf_logits"
  using assms
  by (simp add: dist_update_vector_def log_update_terms_def logsumexp_dim0_def)

lemma update_leaf_distribution_ok:
  assumes ntp: "ntp lf = Some probs" "length (log_p_arrival probs) = length logits"
    and sh: "length ytl = length logits" "\<forall>row \<in> set ytl. length row = nc"
      "\<forall>row \<in> set logits. length row = nc"
    and st: "length (y_logits (leaf_store self lf)) = nc"
      "length (dist_params (leaf_store self lf)) = nc"
  shows "\<exists>upd. dist_update_vector (log_p_arrival probs) (y_logits (leaf_store self lf)) ytl logits
        = Inr upd
     \<and> update_leaf_distribution y_logits self lf ntp logits ytl
        = Inr (self\<lparr>leaf_store := (leaf_store self)
                 (lf := apply_dist_update (leaf_opt_ewma_alpha self) (leaf_store self lf) upd)\<rparr>)"
proof -
  have "\<exists>upd. dist_update_vector (log_p_arrival probs) (y_logits (leaf_store self lf)) ytl logits
        = Inr upd \<and> length upd = length (y_logits (leaf_store self lf))"
  proof (rule dist_update_vector_ok)
    show "length ytl = length (log_p_arrival probs)" using ntp(2) sh(1) by simp
    show "length logits = length (log_p_arrival probs)" using ntp(2) by simp
    show "\<forall>row \<in> set ytl. length row = length (y_logits (leaf_store self lf))"
      using sh(2) st(1) by simp
    show "\<forall>row \<in> set logits. length row = length (y_logits (leaf_store self lf))"
      using sh(3) st(1) by simp
  qed
  then obtain upd where upd: "dist_update_vector (log_p_arrival probs)
      (y_logits (leaf_store self lf)) ytl logits = Inr upd"
    "length upd = length (y_logits (leaf_store self lf))" by blast
  have "length upd = length (dist_params (leaf_store self lf))" using upd(2) st by simp
  then have "update_leaf_distribution y_logits self lf ntp logits ytl
        = Inr (self\<lparr>leaf_store := (leaf_store self)
                 (lf := apply_dist_update (leaf_opt_ewma_alpha self) (leaf_store self lf) upd)\<rparr>)"
    using ntp(1) upd(1) by (simp add: update_leaf_distribution_def)
  then show ?thesis using upd(1) by blast
qed

lemma update_leaves_loop_ok:
  assumes d: "distinct ls"
    and sh: "length ytl = length logits" "\<forall>row \<in> set ytl. length row = nc"
      "\<forall>row \<in> set logits. length row = nc"
    and per: "\<And>lf. lf \<in> set ls \<Longrightarrow>
        (\<exists>probs. ntp lf = Some probs \<and> length (log_p_arrival probs) = length logits)
        \<and> length (y_logits (leaf_store self lf)) = nc
        \<and> length (dist_params (leaf_store self lf)) = nc"
  shows "\<exists>self'. update_leaves_loop y_logits self ls ntp logits ytl = Inr self'
     \<and> tree_root self' = tree_root self
     \<and> leaf_opt_ewma_alpha self' = leaf_opt_ewma_alpha self
     \<and> (\<forall>lf. lf \<notin> set ls \<longrightarrow> leaf_store self' lf = leaf_store self lf)
     \<and> (\<forall>lf \<in> set ls. \<exists>probs upd. ntp lf = Some probs
           \<and> dist_update_vector (log_p_arrival probs) (y_logits (leaf_store self lf)) ytl logits
               = Inr upd
           \<and> leaf_store self' lf
               = apply_dist_update (leaf_opt_ewma_alpha self) (leaf_store self lf) upd)"
  using d per
proof (induction ls arbitrary: self)
  case Nil
  then show ?case by simp
next
  case (Cons lf rest)
  have notin: "lf \<notin> set rest" and drest: "distinct rest" using Cons.prems(1) by simp_all
  from Cons.prems(2) [of lf] obtain probs where probs: "ntp lf = Some probs"
    "length (log_p_arrival probs) = length logits"
    and st: "length (y_logits (leaf_store self lf)) = nc"
      "length (dist_params (leaf_store self lf)) = nc" by auto
  from update_leaf_distribution_ok [where y_logits = y_logits and self = self and ntp = ntp
      and lf = lf, OF probs sh st]
  obtain upd where upd: "dist_update_vector (log_p_arrival probs)
      (y_logits (leaf_store self lf)) ytl logits = Inr upd"
    and run1: "update_leaf_distribution y_logits self lf ntp logits ytl
        = Inr (self\<lparr>leaf_store := (leaf_store self)
                 (lf := apply_dist_update (leaf_opt_ewma_alpha self) (leaf_store self lf) upd)\<rparr>)"
    by blast
  define self1 where "self1 = self\<lparr>leaf_store := (leaf_store self)
                 (lf := apply_dist_update (leaf_opt_ewma_alpha self) (leaf_store self lf) upd)\<rparr>"
  have s1: "tree_root self1 = tree_root self"
    "leaf_opt_ewma_alpha self1 = leaf_opt_ewma_alpha self"
    "leaf_store self1 lf = apply_dist_update (leaf_opt_ewma_alpha self) (leaf_store self lf) upd"
    by (simp_all add: self1_def)
  have s1o: "leaf_store self1 l = leaf_store self l" if "l \<noteq> lf" for l
    using that by (simp add: self1_def)
  have "\<exists>self'. update_leaves_loop y_logits self1 rest ntp logits ytl = Inr self'
     \<and> tree_root self' = tree_root self1
     \<and> leaf_opt_ewma_alpha self' = leaf_opt_ewma_alpha self1
     \<and> (\<forall>l. l \<notin> set rest \<longrightarrow> leaf_store self' l = leaf_store self1 l)
     \<and> (\<forall>l \<in> set rest. \<exists>probs upd. ntp l = Some probs
           \<and> dist_update_vector (log_p_arrival probs) (y_logits (leaf_store self1 l)) ytl logits
               = Inr upd
           \<and> leaf_store self' l
               = apply_dist_update (leaf_opt_ewma_alpha self1) (leaf_store self1 l) upd)"
  proof (rule Cons.IH [OF drest])
    fix l assume l: "l \<in> set rest"
    then have "l \<noteq> lf" using notin by auto
    then have "leaf_store self1 l = leaf_store self l" by (rule s1o)
    moreover have "(\<exists>probs. ntp l = Some probs \<and> length (log_p_arrival probs) = length logits)
        \<and> length (y_logits (leaf_store self l)) = nc
        \<and> length (dist_params (leaf_store self l)) = nc"
      using Cons.prems(2) [of l] l by simp
    ultimately show "(\<exists>probs. ntp l = Some probs \<and> length (log_p_arrival probs) = length logits)
        \<and> length (y_logits (leaf_store self1 l)) = nc
        \<and> length (dist_params (leaf_store self1 l)) = nc" by simp
  qed
  then obtain self' where all: "update_leaves_loop y_logits self1 rest ntp logits ytl = Inr self'
     \<and> tree_root self' = tree_root self1
     \<and> leaf_opt_ewma_alpha self' = leaf_opt_ewma_alpha self1
     \<and> (\<forall>l. l \<notin> set rest \<longrightarrow> leaf_store self' l = leaf_store self1 l)
     \<and> (\<forall>l \<in> set rest. \<exists>probs upd. ntp l = Some probs
           \<and> dist_update_vector (log_p_arrival probs) (y_logits (leaf_store self1 l)) ytl logits
               = Inr upd
           \<and> leaf_store self' l
               = apply_dist_update (leaf_opt_ewma_alpha self1) (leaf_store self1 l) upd)"
    by (rule exE)
  note run = all [THEN conjunct1]
  note root = all [THEN conjunct2, THEN conjunct1]
  note alpha = all [THEN conjunct2, THEN conjunct2, THEN conjunct1]
  note out = all [THEN conjunct2, THEN conjunct2, THEN conjunct2, THEN conjunct1, rule_format]
  note inn = all [THEN conjunct2, THEN conjunct2, THEN conjunct2, THEN conjunct2, rule_format]
  have c1: "update_leaves_loop y_logits self (lf # rest) ntp logits ytl = Inr self'"
    using run1 run by (simp add: self1_def)
  have c4: "leaf_store self' l = leaf_store self l" if "l \<notin> set (lf # rest)" for l
  proof -
    have "l \<notin> set rest" "l \<noteq> lf" using that by simp_all
    then show ?thesis using out [of l] s1o [of l] by simp
  qed
  have c5: "\<exists>probs upd. ntp l = Some probs
           \<and> dist_update_vector (log_p_arrival probs) (y_logits (leaf_store self l)) ytl logits
               = Inr upd
           \<and> leaf_store self' l
               = apply_dist_update (leaf_opt_ewma_alpha self) (leaf_store self l) upd"
    if "l \<in> set (lf # rest)" for l
  proof (cases "l = lf")
    case True
    have "leaf_store self' lf = leaf_store self1 lf" using notin by (rule out)
    then have "leaf_store self' l
        = apply_dist_update (leaf_opt_ewma_alpha self) (leaf_store self l) upd"
      using s1(3) True by simp
    then show ?thesis using probs(1) upd True by blast
  next
    case False
    then have l: "l \<in> set rest" using that by simp
    from inn [OF l] obtain probs' upd' where w: "ntp l = Some probs'"
      "dist_update_vector (log_p_arrival probs') (y_logits (leaf_store self1 l)) ytl logits
               = Inr upd'"
      "leaf_store self' l
               = apply_dist_update (leaf_opt_ewma_alpha self1) (leaf_store self1 l) upd'"
      by blast
    have e: "leaf_store self1 l = leaf_store self l" using False by (rule s1o)
    show ?thesis using w unfolding e s1(2) by blast
  qed
  show ?case
  proof (intro exI conjI)
    show "update_leaves_loop y_logits self (lf # rest) ntp logits ytl = Inr self'" by (rule c1)
    show "tree_root self' = tree_root self" using root s1(1) by simp
    show "leaf_opt_ewma_alpha self' = leaf_opt_ewma_alpha self" using alpha s1(2) by simp
    show "\<forall>l. l \<notin> set (lf # rest) \<longrightarrow> leaf_store self' l = leaf_store self l"
      using c4 by blast
    show "\<forall>l \<in> set (lf # rest). \<exists>probs upd. ntp l = Some probs
           \<and> dist_update_vector (log_p_arrival probs) (y_logits (leaf_store self l)) ytl logits
               = Inr upd
           \<and> leaf_store self' l
               = apply_dist_update (leaf_opt_ewma_alpha self) (leaf_store self l) upd"
      using c5 by blast
  qed
qed

lemma one_hot_ok:
  assumes "\<forall>y \<in> set y_true. y < n"
  shows "one_hot y_true n = Inr (map (\<lambda>y. map (\<lambda>c. if c = y then 1 else 0) [0..<n]) y_true)"
  using assms by (simp add: one_hot_def)

text \<open>
  C9. A call of \<open>update_leaf_distributions\<close> on tensors of matching shapes returns, and for
  every leaf of the tree the update counter is then one more than before and the leaf's
  attributes are the result of the update step applied to its previous attributes and its
  own update vector. No condition on the arrival mass is involved: a leaf whose
  \<open>log_p_arrival\<close> is \<open>-inf\<close> for the whole batch is updated like any other.
\<close>

theorem update_leaf_distributions_updates_every_leaf:
  assumes yl: "length y_true = length logits"
    and rows: "\<forall>row \<in> set logits. length row = num_classes self"
    and ys: "\<forall>y \<in> set y_true. y < num_classes self"
    and per: "\<forall>lf \<in> set (leaves (tree_root self)).
        (\<exists>probs. node_to_prob lf = Some probs \<and> length (log_p_arrival probs) = length logits)
        \<and> length (y_logits (leaf_store self lf)) = num_classes self
        \<and> length (dist_params (leaf_store self lf)) = num_classes self"
  shows "\<exists>self' y_true_one_hot. one_hot y_true (num_classes self) = Inr y_true_one_hot
     \<and> update_leaf_distributions y_logits self y_true logits node_to_prob = Inr self'
     \<and> (\<forall>lf \<in> set (leaves (tree_root self)).
           dist_param_update_count (leaf_store self' lf)
             = dist_param_update_count (leaf_store self lf) + 1
           \<and> (\<exists>probs upd. node_to_prob lf = Some probs
                 \<and> dist_update_vector (log_p_arrival probs) (y_logits (leaf_store self lf))
                      (log_tensor y_true_one_hot) logits = Inr upd
                 \<and> leaf_store self' lf
                      = apply_dist_update (leaf_opt_ewma_alpha self) (leaf_store self lf) upd))"
proof -
  define nc where "nc = num_classes self"
  define oh where "oh = map (\<lambda>y. map (\<lambda>c. if c = y then 1 else (0::nat)) [0..<nc]) y_true"
  define ytl where "ytl = log_tensor oh"
  have oh: "one_hot y_true nc = Inr oh" unfolding oh_def using ys nc_def by (intro one_hot_ok) simp
  have oh_shape: "one_hot y_true (snd (shape logits)) = Inr oh"
  proof (cases logits)
    case Nil
    then have "y_true = []" using yl by simp
    then show ?thesis by (simp add: one_hot_def oh_def)
  next
    case (Cons r rs)
    then have "snd (shape logits) = nc" using rows by (simp add: shape_def nc_def)
    then show ?thesis using oh by simp
  qed
  have sh1: "length ytl = length logits" using yl by (simp add: ytl_def oh_def log_tensor_def)
  have sh2: "\<forall>row \<in> set ytl. length row = nc" by (auto simp: ytl_def oh_def log_tensor_def)
  have sh3: "\<forall>row \<in> set logits. length row = nc" using rows by (simp add: nc_def)
  have "\<exists>self'. update_leaves_loop y_logits self (leaves (tree_root self)) node_to_prob logits ytl
        = Inr self'
     \<and> tree_root self' = tree_root self
     \<and> leaf_opt_ewma_alpha self' = leaf_opt_ewma_alpha self
     \<and> (\<forall>lf. lf \<notin> set (leaves (tree_root self)) \<longrightarrow> leaf_store self' lf = leaf_store self lf)
     \<and> (\<forall>lf \<in> set (leaves (tree_root self)). \<exists>probs upd. node_to_prob lf = Some probs
           \<and> dist_update_vector (log_p_arrival probs) (y_logits (leaf_store self lf)) ytl logits
               = Inr upd
           \<and> leaf_store self' lf
               = apply_dist_update (leaf_opt_ewma_alpha self) (leaf_store self lf) upd)"
  proof (rule update_leaves_loop_ok [where nc = nc])
    show "distinct (leaves (tree_root self))" by (rule distinct_leaves)
    show "length ytl = length logits" by (rule sh1)
    show "\<forall>row \<in> set ytl. length row = nc" by (rule sh2)
    show "\<forall>row \<in> set logits. length row = nc" by (rule sh3)
    show "(\<exists>probs. node_to_prob lf = Some probs \<and> length (log_p_arrival probs) = length logits)
        \<and> length (y_logits (leaf_store self lf)) = nc
        \<and> length (dist_params (leaf_store self lf)) = nc"
      if "lf \<in> set (leaves (tree_root self))" for lf
      using per that unfolding nc_def by blast
  qed
  then obtain self' where all: "update_leaves_loop y_logits self (leaves (tree_root self))
        node_to_prob logits ytl = Inr self'
     \<and> tree_root self' = tree_root self
     \<and> leaf_opt_ewma_alpha self' = leaf_opt_ewma_alpha self
     \<and> (\<forall>lf. lf \<notin> set (leaves (tree_root self)) \<longrightarrow> leaf_store self' lf = leaf_store self lf)
     \<and> (\<forall>lf \<in> set (leaves (tree_root self)). \<exists>probs upd. node_to_prob lf = Some probs
           \<and> dist_update_vector (log_p_arrival probs) (y_logits (leaf_store self lf)) ytl logits
               = Inr upd
           \<and> leaf_store self' lf
               = apply_dist_update (leaf_opt_ewma_alpha self) (leaf_store self lf) upd)"
    by (rule exE)
  note run = all [THEN conjunct1]
  note inn = all [THEN conjunct2, THEN conjunct2, THEN conjunct2, THEN conjunct2, rule_format]
  have c2: "update_leaf_distributions y_logits self y_true logits node_to_prob = Inr self'"
  proof -
    obtain bs n where sp: "shape logits = (bs, n)" by (cases "shape logits")
    then have "one_hot y_true n = Inr oh" using oh_shape by simp
    then show ?thesis using run sp by (simp add: update_leaf_distributions_def ytl_def)
  qed
  have c3: "dist_param_update_count (leaf_store self' lf)
             = dist_param_update_count (leaf_store self lf) + 1
           \<and> (\<exists>probs upd. node_to_prob lf = Some probs
                 \<and> dist_update_vector (log_p_arrival probs) (y_logits (leaf_store self lf))
                      (log_tensor oh) logits = Inr upd
                 \<and> leaf_store self' lf
                      = apply_dist_update (leaf_opt_ewma_alpha self) (leaf_store self lf) upd)"
    if "lf \<in> set (leaves (tree_root self))" for lf
  proof -
    from inn [OF that] obtain probs upd where w: "node_to_prob lf = Some probs"
      "dist_update_vector (log_p_arrival probs) (y_logits (leaf_store self lf)) ytl logits
               = Inr upd"
      "leaf_store self' lf
               = apply_dist_update (leaf_opt_ewma_alpha self) (leaf_store self lf) upd"
      by blast
    have "dist_param_update_count (leaf_store self' lf)
             = dist_param_update_count (leaf_store self lf) + 1"
      unfolding w(3) by (simp add: apply_dist_update_def Let_def)
    then show ?thesis using w unfolding ytl_def by blast
  qed
  show ?thesis
  proof (intro exI conjI)
    show "one_hot y_true (num_classes self) = Inr oh" using oh by (simp add: nc_def)
    show "update_leaf_distributions y_logits self y_true logits node_to_prob = Inr self'"
      by (rule c2)
    show "\<forall>lf \<in> set (leaves (tree_root self)).
           dist_param_update_count (leaf_store self' lf)
             = dist_param_update_count (leaf_store self lf) + 1
           \<and> (\<exists>probs upd. node_to_prob lf = Some probs
                 \<and> dist_update_vector (log_p_arrival probs) (y_logits (leaf_store self lf))
                      (log_tensor oh) logits = Inr upd
                 \<and> leaf_store self' lf
                      = apply_dist_update (leaf_opt_ewma_alpha self) (leaf_store self lf) upd)"
      using c3 by blast
  qed
qed

lemma add_to_zero_scaled:
  "length xs = length ys \<Longrightarrow> map2 (+) (map (\<lambda>p. p * (0::real)) xs) ys = ys"
  by (induction xs ys rule: list_induct2) simp_all

text \<open>
  C8. For a leaf whose update counter is \<open>0\<close> and a configured \<open>leaf_opt_ewma_alpha\<close> of at
  most \<open>1\<close>, one leaf-distribution update (on tensors for which the update vector is
  defined and has the length of the parameters) leaves \<open>dist_params\<close> equal to the raw
  update vector: the effective alpha is \<open>max(1/1, alpha) = 1\<close> and the previous parameters
  contribute nothing.
\<close>

theorem first_update_replaces_dist_params:
  assumes cnt: "dist_param_update_count (leaf_store self lf) = 0"
    and alpha: "leaf_opt_ewma_alpha self \<le> 1"
    and ntp: "node_to_prob lf = Some probs"
    and upd: "dist_update_vector (log_p_arrival probs) (y_logits (leaf_store self lf))
                y_true_logits logits = Inr upd"
    and len: "length upd = length (dist_params (leaf_store self lf))"
  shows "\<exists>self'. update_leaf_distribution y_logits self lf node_to_prob logits y_true_logits
        = Inr self'
     \<and> dist_params (leaf_store self' lf) = upd
     \<and> dist_param_update_count (leaf_store self' lf) = 1"
proof -
  define self' where "self' = self\<lparr>leaf_store := (leaf_store self)
      (lf := apply_dist_update (leaf_opt_ewma_alpha self) (leaf_store self lf) upd)\<rparr>"
  have run: "update_leaf_distribution y_logits self lf node_to_prob logits y_true_logits
        = Inr self'"
    using ntp upd len by (simp add: update_leaf_distribution_def self'_def)
  have a1: "max (1 / real (0 + 1)) (leaf_opt_ewma_alpha self) = 1" using alpha by simp
  have "apply_dist_update (leaf_opt_ewma_alpha self) (leaf_store self lf) upd
      = \<lparr>dist_params = map2 (+) (map (\<lambda>p. p * 0) (dist_params (leaf_store self lf))) upd,
         dist_param_update_count = 1\<rparr>"
    using a1 cnt by (simp add: apply_dist_update_def Let_def)
  also have "\<dots> = \<lparr>dist_params = upd, dist_param_update_count = 1\<rparr>"
    using len by (simp only: add_to_zero_scaled)
  finally have "leaf_store self' lf = \<lparr>dist_params = upd, dist_param_update_count = 1\<rparr>"
    by (simp add: self'_def)
  then show ?thesis using run by simp
qed

section \<open>The leaf distribution update on the depth-one model\<close>

lemma upt_0_2: "[0..<2] = [0, Suc 0]"
  by (simp add: numeral_2_eq_2)

lemma example_log_one_hot: "log_tensor [[Suc 0, 0]] = [[Fin 0, NegInf]]"
  by (simp add: log_tensor_def llog_def)

lemma example_update_left:
  "dist_update_vector [NegInf] [Fin 1, Fin 0] [[Fin 0, NegInf]] [[0, 0]] = Inr [0, 0]"
  by (simp add: dist_update_vector_def log_update_terms_def logsumexp_dim0_def logsumexp_def
      llog_def upt_0_2)

lemma example_update_right:
  "dist_update_vector [Fin 0] [Fin 0, Fin 1] [[Fin 0, NegInf]] [[0, 0]] = Inr [1, 0]"
  by (simp add: dist_update_vector_def log_update_terms_def logsumexp_dim0_def logsumexp_def
      llog_def upt_0_2)

lemma example_update_distributions:
  "update_leaf_distributions example_y_logits example_section [0] [[0, 0]] example_node_to_prob
   = Inr (example_section\<lparr>leaf_store := (leaf_store example_section)
            ([False] := \<lparr>dist_params = [1/2, 0], dist_param_update_count = 2\<rparr>,
             [True] := \<lparr>dist_params = [1, 1/2], dist_param_update_count = 2\<rparr>)\<rparr>)"
proof -
  have oh: "one_hot [0] (Suc (Suc 0)) = Inr [[1, 0]]"
    by (simp add: one_hot_def)
  have l: "update_leaf_distribution example_y_logits example_section [False]
      example_node_to_prob [[0, 0]] [[Fin 0, NegInf]]
    = Inr (example_section\<lparr>leaf_store := (leaf_store example_section)
            ([False] := \<lparr>dist_params = [1/2, 0], dist_param_update_count = 2\<rparr>)\<rparr>)"
    using example_update_left
    by (simp add: update_leaf_distribution_def example_node_to_prob_def example_section_def
        example_y_logits_def apply_dist_update_def Let_def numeral_2_eq_2)
  have r: "update_leaf_distribution example_y_logits
      (example_section\<lparr>leaf_store := (leaf_store example_section)
            ([False] := \<lparr>dist_params = [1/2, 0], dist_param_update_count = 2\<rparr>)\<rparr>) [True]
      example_node_to_prob [[0, 0]] [[Fin 0, NegInf]]
    = Inr (example_section\<lparr>leaf_store := (leaf_store example_section)
            ([False] := \<lparr>dist_params = [1/2, 0], dist_param_update_count = 2\<rparr>,
             [True] := \<lparr>dist_params = [1, 1/2], dist_param_update_count = 2\<rparr>)\<rparr>)"
    using example_update_right
    by (simp add: update_leaf_distribution_def example_node_to_prob_def example_section_def
        example_y_logits_def apply_dist_update_def Let_def numeral_2_eq_2)
  have lv: "leaves (tree_root example_section) = [[False], [True]]"
    by (simp add: example_section_def)
  show ?thesis
    by (simp add: update_leaf_distributions_def shape_def oh example_log_one_hot lv l r)
qed

theorem update_leaf_distributions_updates_every_leaf_witness:
  "map_sum id (\<lambda>self'. (leaf_store self' [False], leaf_store self' [True]))
     (update_leaf_distributions example_y_logits example_section [0] [[0, 0]]
        example_node_to_prob)
   = Inr (\<lparr>dist_params = [1/2, 0], dist_param_update_count = 2\<rparr>,
          \<lparr>dist_params = [1, 1/2], dist_param_update_count = 2\<rparr>)"
proof -
  have yl: "length [0::nat] = length [[0, 0 :: real]]" by simp
  have rows: "\<forall>row \<in> set [[0, 0 :: real]]. length row = num_classes example_section"
    by (simp add: example_section_def)
  have ys: "\<forall>y \<in> set [0::nat]. y < num_classes example_section"
    by (simp add: example_section_def)
  have per: "\<forall>lf \<in> set (leaves (tree_root example_section)).
        (\<exists>probs. example_node_to_prob lf = Some probs
            \<and> length (log_p_arrival probs) = length [[0, 0 :: real]])
        \<and> length (example_y_logits (leaf_store example_section lf)) = num_classes example_section
        \<and> length (dist_params (leaf_store example_section lf)) = num_classes example_section"
    by (simp add: example_section_def example_node_to_prob_def example_y_logits_def)
  from update_leaf_distributions_updates_every_leaf [where y_logits = example_y_logits,
      OF yl rows ys per]
  obtain self' where run: "update_leaf_distributions example_y_logits example_section [0]
      [[0, 0]] example_node_to_prob = Inr self'"
    and cnt: "\<forall>lf \<in> set (leaves (tree_root example_section)).
           dist_param_update_count (leaf_store self' lf)
             = dist_param_update_count (leaf_store example_section lf) + 1"
    by blast
  have ev: "map_sum id (\<lambda>self'. (leaf_store self' [False], leaf_store self' [True]))
     (update_leaf_distributions example_y_logits example_section [0] [[0, 0]]
        example_node_to_prob)
   = Inr (\<lparr>dist_params = [1/2, 0], dist_param_update_count = 2\<rparr>,
          \<lparr>dist_params = [1, 1/2], dist_param_update_count = 2\<rparr>)"
    by (simp add: example_update_distributions)
  show ?thesis using run cnt ev by blast
qed

theorem first_update_replaces_dist_params_witness:
  "map_sum id (\<lambda>self'. leaf_store self' [True])
     (update_leaf_distribution example_y_logits
        (example_section\<lparr>leaf_store :=
           (\<lambda>lf. \<lparr>dist_params = [0, 1], dist_param_update_count = 0\<rparr>)\<rparr>)
        [True] example_node_to_prob [[0, 0]] [[Fin 0, NegInf]])
   = Inr \<lparr>dist_params = [1, 0], dist_param_update_count = 1\<rparr>"
proof -
  let ?s = "example_section\<lparr>leaf_store :=
           (\<lambda>lf. \<lparr>dist_params = [0, 1], dist_param_update_count = 0\<rparr>)\<rparr>"
  have cnt: "dist_param_update_count (leaf_store ?s [True]) = 0" by simp
  have alpha: "leaf_opt_ewma_alpha ?s \<le> 1" by (simp add: example_section_def)
  have ntp: "example_node_to_prob [True] = Some \<lparr>log_p_arrival = [Fin 0], log_p_right = None\<rparr>"
    by (simp add: example_node_to_prob_def)
  have upd: "dist_update_vector (log_p_arrival \<lparr>log_p_arrival = [Fin 0], log_p_right = None\<rparr>)
      (example_y_logits (leaf_store ?s [True])) [[Fin 0, NegInf]] [[0, 0]] = Inr [1, 0]"
    using example_update_right by (simp add: example_y_logits_def)
  have len: "length [1, 0 :: real] = length (dist_params (leaf_store ?s [True]))" by simp
  from first_update_replaces_dist_params [where y_logits = example_y_logits
      and self = ?s and lf = "[True]" and node_to_prob = example_node_to_prob
      and probs = "\<lparr>log_p_arrival = [Fin 0], log_p_right = None\<rparr>"
      and y_true_logits = "[[Fin 0, NegInf]]" and logits = "[[0, 0]]" and upd = "[1, 0]",
      OF cnt alpha ntp upd len]
  obtain self' where "update_leaf_distribution example_y_logits ?s [True] example_node_to_prob
      [[0, 0]] [[Fin 0, NegInf]] = Inr self'"
    "dist_params (leaf_store self' [True]) = [1, 0]"
    "dist_param_update_count (leaf_store self' [True]) = 1" by blast
  then show ?thesis by simp
qed

text \<open>
  What the code applies to the parameters, for every leaf and update vector: the old
  parameters scaled by \<open>1 - alpha\<close> plus the update vector itself.
\<close>

lemma apply_dist_update_rule:
  "dist_params (apply_dist_update a st upd)
     = map2 (\<lambda>p u. p * (1 - max (1 / real (dist_param_update_count st + 1)) a) + u)
         (dist_params st) upd"
  by (simp add: apply_dist_update_def Let_def zip_map1 case_prod_beta)

text \<open>
  C1. The stated rule \<open>dist_params \<sqdot> (1 - alpha) + update_vector \<sqdot> alpha\<close> is not what the
  code computes. On the depth-one section with \<open>leaf_opt_ewma_alpha = 0.1\<close>, the right
  leaf has parameters \<open>[0, 1]\<close> and counter \<open>1\<close>; a batch of one sample with true class \<open>0\<close>
  gives it the update vector \<open>[1, 0]\<close>, the counter becomes \<open>2\<close> and alpha \<open>0.5\<close>. The code
  leaves the parameters \<open>[1, 0.5]\<close> (the update vector is added unscaled), the stated rule
  gives \<open>[0.5, 0.5]\<close>.
\<close>

theorem update_adds_unscaled_update_vector:
  "map_sum id (\<lambda>self'. dist_params (leaf_store self' [True]))
     (update_leaf_distributions example_y_logits example_section [0] [[0, 0]]
        example_node_to_prob) = Inr [1, 1/2]
   \<and> dist_update_vector [Fin 0] (example_y_logits (leaf_store example_section [True]))
        (log_tensor [[1, 0]]) [[0, 0]] = Inr [1, 0]
   \<and> dist_params (leaf_store example_section [True]) = [0, 1]
   \<and> dist_param_update_count (leaf_store example_section [True]) + 1 = 2
   \<and> spec_ewma_rule (leaf_opt_ewma_alpha example_section) 2 [0, 1] [1, 0] = [1/2, 1/2]"
proof (intro conjI)
  show "map_sum id (\<lambda>self'. dist_params (leaf_store self' [True]))
     (update_leaf_distributions example_y_logits example_section [0] [[0, 0]]
        example_node_to_prob) = Inr [1, 1/2]"
    by (simp add: example_update_distributions)
  show "dist_update_vector [Fin 0] (example_y_logits (leaf_store example_section [True]))
        (log_tensor [[1, 0]]) [[0, 0]] = Inr [1, 0]"
    using example_update_right
    by (simp add: example_log_one_hot example_section_def example_y_logits_def)
  show "dist_params (leaf_store example_section [True]) = [0, 1]"
    by (simp add: example_section_def)
  show "dist_param_update_count (leaf_store example_section [True]) + 1 = 2"
    by (simp add: example_section_def)
  show "spec_ewma_rule (leaf_opt_ewma_alpha example_section) 2 [0, 1] [1, 0] = [1/2, 1/2]"
    by (simp add: spec_ewma_rule_def example_section_def Let_def)
qed

section \<open>Rationalization\<close>

lemma ancestors_Cons: "ancestors (b # p) = [] # map ((#) b) (ancestors p)"
proof -
  have "[0..<Suc (length p)] = 0 # map Suc [0..<length p]"
    by (simp add: upt_conv_Cons map_Suc_upt del: upt_Suc)
  then show ?thesis by (simp add: ancestors_def comp_def del: upt_Suc)
qed

lemma ancestors_Nil: "ancestors [] = []"
  by (simp add: ancestors_def)

lemma ancestors_of_leaf_internal:
  "lf \<in> set (leaves t) \<Longrightarrow> set (ancestors lf) \<subseteq> set (descendant_internal_nodes t)"
proof (induction t arbitrary: lf)
  case Leaf
  then show ?case by (simp add: ancestors_Nil)
next
  case (InternalNode l r)
  from InternalNode.prems consider lf' where "lf = False # lf'" "lf' \<in> set (leaves l)"
    | lf' where "lf = True # lf'" "lf' \<in> set (leaves r)" by auto
  then show ?case
  proof cases
    case 1
    have "set (ancestors lf') \<subseteq> set (descendant_internal_nodes l)"
      using 1(2) by (rule InternalNode.IH(1))
    then show ?thesis unfolding 1(1) ancestors_Cons by auto
  next
    case 2
    have "set (ancestors lf') \<subseteq> set (descendant_internal_nodes r)"
      using 2(2) by (rule InternalNode.IH(2))
    then show ?thesis unfolding 2(1) ancestors_Cons by auto
  qed
qed

lemma perfect_tree_leaf_depth: "lf \<in> set (leaves (perfect_tree d)) \<Longrightarrow> length lf = d"
  by (induction d arbitrary: lf) auto

lemma perfect_tree_leaf_ancestors:
  "lf \<in> set (leaves (perfect_tree d)) \<Longrightarrow> length (ancestors lf) = d"
  by (simp add: ancestors_def perfect_tree_leaf_depth)

lemma next_on_path_is_the_turn:
  "p \<noteq> [] \<Longrightarrow> map is_right_child (drop 1 (ancestors p) @ [p]) = p"
proof (induction p rule: rev_induct)
  case Nil
  then show ?case by simp
next
  case (snoc b p)
  show ?case
  proof (cases "p = []")
    case True
    then show ?thesis by (simp add: ancestors_def is_right_child_def)
  next
    case False
    have a: "ancestors (p @ [b]) = ancestors p @ [p]"
      by (simp add: ancestors_def)
    have "1 \<le> length (ancestors p)" using False by (cases p) (simp_all add: ancestors_def)
    then have "drop 1 (ancestors (p @ [b])) = drop 1 (ancestors p) @ [p]"
      unfolding a by simp
    then have "map is_right_child (drop 1 (ancestors (p @ [b])) @ [p @ [b]])
        = map is_right_child (drop 1 (ancestors p) @ [p]) @ [is_right_child (p @ [b])]"
      by simp
    also have "\<dots> = p @ [b]"
    proof -
      have "is_right_child (p @ [b]) = b" by (simp add: is_right_child_def)
      then show ?thesis by (simp only: snoc.IH [OF False])
    qed
    finally show ?thesis .
  qed
qed

lemma proto_idx_lookup:
  assumes ok: "section_ok ts" and q: "q \<in> set (descendant_internal_nodes (tree_root ts))"
  shows "\<exists>i. map_of (node_to_proto_idx ts) q = Some i \<and> i < length (node_to_proto_idx ts)"
proof -
  define din where "din = descendant_internal_nodes (tree_root ts)"
  have items: "node_to_proto_idx ts = zip din [0..<length din]"
    using ok by (simp add: section_ok_def din_def)
  have "length din = length [0..<length din]" by simp
  then have "(q \<in> set din) = (\<exists>y. map_of (zip din [0..<length din]) q = Some y)"
    by (rule map_of_zip_is_Some)
  then obtain i where i: "map_of (zip din [0..<length din]) q = Some i"
    using q din_def by auto
  then have "(q, i) \<in> set (zip din [0..<length din])" by (rule map_of_SomeD)
  then have "i \<in> set [0..<length din]" by (rule set_zip_rightD)
  then have "i < length din" by simp
  then show ?thesis using i by (simp add: items)
qed

lemma ancestor_similarities_ok:
  assumes ok: "section_ok ts" and lf: "lf \<in> set (leaves (tree_root ts))"
    and d: "length dists_i = length (node_to_proto_idx ts)"
  shows "\<exists>sims. collect (ancestor_similarity bp ts x_i dists_i patches_i) (ancestors lf) = Inr sims
     \<and> map internal_node sims = ancestors lf"
proof -
  have "\<exists>ys. collect (ancestor_similarity bp ts x_i dists_i patches_i) (ancestors lf) = Inr ys
     \<and> length ys = length (ancestors lf)
     \<and> (\<forall>i<length (ancestors lf).
           ancestor_similarity bp ts x_i dists_i patches_i (ancestors lf ! i) = Inr (ys ! i)
           \<and> internal_node (ys ! i) = ancestors lf ! i)"
  proof (rule collect_ok_ex [where P = "\<lambda>a y. internal_node y = a"])
    fix a assume "a \<in> set (ancestors lf)"
    then have "a \<in> set (descendant_internal_nodes (tree_root ts))"
      using ancestors_of_leaf_internal [OF lf] by blast
    from proto_idx_lookup [OF ok this] obtain i where
      i: "map_of (node_to_proto_idx ts) a = Some i" "i < length (node_to_proto_idx ts)" by blast
    then have "ancestor_similarity bp ts x_i dists_i patches_i a
        = Inr (img_proto_similarity bp a x_i (dists_i ! i) patches_i)"
      using d by (simp add: ancestor_similarity_def)
    then show "\<exists>y. ancestor_similarity bp ts x_i dists_i patches_i a = Inr y
        \<and> internal_node y = a"
      by (simp add: img_proto_similarity_def)
  qed
  then obtain sims where all: "collect (ancestor_similarity bp ts x_i dists_i patches_i)
        (ancestors lf) = Inr sims
     \<and> length sims = length (ancestors lf)
     \<and> (\<forall>i<length (ancestors lf).
           ancestor_similarity bp ts x_i dists_i patches_i (ancestors lf ! i) = Inr (sims ! i)
           \<and> internal_node (sims ! i) = ancestors lf ! i)"
    by (rule exE)
  note run = all [THEN conjunct1]
  note len = all [THEN conjunct2, THEN conjunct1]
  note nth = all [THEN conjunct2, THEN conjunct2, rule_format]
  have "map internal_node sims = ancestors lf"
  proof (rule nth_equalityI)
    show "length (map internal_node sims) = length (ancestors lf)" using len by simp
    fix i assume "i < length (map internal_node sims)"
    then have i: "i < length (ancestors lf)" using len by simp
    from nth [OF i] show "map internal_node sims ! i = ancestors lf ! i"
      using i len by simp
  qed
  then show ?thesis using run by blast
qed

text \<open>
  \<open>ProtoTree.rationalize\<close> of \<open>proto/models.py\<close> does what C2 states: one rationalization
  per (image, leaf) pair, whose evidence entries are those of the leaf's ancestors from the
  root downwards (as many as the leaf is deep, \<open>D\<close> in the perfect tree of depth \<open>D\<close>), and
  whose \<open>proto_presents\<close> flags are \<open>is_right_child\<close> of the next node on the path.
\<close>

lemma ProtoTree_rationalize_ok:
  assumes ok: "section_ok (tree_section self)"
    and l1: "length pls = length x"
    and l2: "length (distances (proto_base self) x) = length x"
    and l3: "length (patches (proto_base self) x) = length x"
    and d: "\<forall>dists_i \<in> set (distances (proto_base self) x).
              length dists_i = length (node_to_proto_idx (tree_section self))"
    and lv: "set pls \<subseteq> set (leaves (tree_root (tree_section self)))"
  shows "\<exists>rs. ProtoTree_rationalize bp self x pls = Inr rs \<and> length rs = length x
     \<and> (\<forall>i<length x. leaf (rs ! i) = pls ! i
           \<and> map internal_node (ancestor_similarities (rs ! i)) = ancestors (pls ! i)
           \<and> proto_presents (rs ! i)
               = map is_right_child (drop 1 (ancestors (pls ! i)) @ [pls ! i])
           \<and> proto_presents (rs ! i) = pls ! i)"
proof -
  define ts where "ts = tree_section self"
  define dists where "dists = distances (proto_base self) x"
  define pts where "pts = patches (proto_base self) x"
  define tuples where "tuples = zip x (zip pls (zip dists pts))"
  define body where "body = (\<lambda>(x_i, predicting_leaf, dists_i, patches_i).
              case collect (ancestor_similarity bp ts x_i dists_i patches_i)
                     (ancestors predicting_leaf) of
                Inl e \<Rightarrow> Inl e
              | Inr sims \<Rightarrow> Inr \<lparr>ancestor_similarities = sims, leaf = predicting_leaf\<rparr>)"
  have lt: "length tuples = length x" using l1 l2 l3 by (simp add: tuples_def dists_def pts_def)
  have run0: "ProtoTree_rationalize bp self x pls = collect body tuples"
    by (simp add: ProtoTree_rationalize_def Let_def body_def tuples_def dists_def pts_def ts_def)
  have "\<exists>ys. collect body tuples = Inr ys \<and> length ys = length tuples
     \<and> (\<forall>i<length tuples. body (tuples ! i) = Inr (ys ! i)
           \<and> (leaf (ys ! i) = fst (snd (tuples ! i))
               \<and> map internal_node (ancestor_similarities (ys ! i))
                    = ancestors (fst (snd (tuples ! i)))))"
  proof (rule collect_ok_ex [where P = "\<lambda>tp y. leaf y = fst (snd tp)
               \<and> map internal_node (ancestor_similarities y) = ancestors (fst (snd tp))"])
    fix tp assume tp: "tp \<in> set tuples"
    obtain x_i lf dists_i patches_i where e: "tp = (x_i, lf, dists_i, patches_i)"
      by (cases tp) auto
    have "(lf, dists_i, patches_i) \<in> set (zip pls (zip dists pts))"
      using tp unfolding e tuples_def by (rule set_zip_rightD)
    then have lf: "lf \<in> set pls" and "(dists_i, patches_i) \<in> set (zip dists pts)"
      by (auto dest: set_zip_leftD set_zip_rightD)
    then have di: "dists_i \<in> set dists" by (auto dest: set_zip_leftD)
    have lfl: "lf \<in> set (leaves (tree_root ts))" using lf lv by (auto simp: ts_def)
    have dl: "length dists_i = length (node_to_proto_idx ts)"
      using d di by (simp add: dists_def ts_def)
    from ancestor_similarities_ok [where bp = bp and x_i = x_i and patches_i = patches_i,
        OF ok [folded ts_def] lfl dl]
    obtain sims where "collect (ancestor_similarity bp ts x_i dists_i patches_i) (ancestors lf)
        = Inr sims" "map internal_node sims = ancestors lf" by blast
    then show "\<exists>y. body tp = Inr y \<and> (leaf y = fst (snd tp)
               \<and> map internal_node (ancestor_similarities y) = ancestors (fst (snd tp)))"
      by (simp add: body_def e)
  qed
  then obtain rs where all: "collect body tuples = Inr rs \<and> length rs = length tuples
     \<and> (\<forall>i<length tuples. body (tuples ! i) = Inr (rs ! i)
           \<and> (leaf (rs ! i) = fst (snd (tuples ! i))
               \<and> map internal_node (ancestor_similarities (rs ! i))
                    = ancestors (fst (snd (tuples ! i)))))"
    by (rule exE)
  note run = all [THEN conjunct1]
  note len = all [THEN conjunct2, THEN conjunct1]
  note nth = all [THEN conjunct2, THEN conjunct2, rule_format]
  have c3: "leaf (rs ! i) = pls ! i
           \<and> map internal_node (ancestor_similarities (rs ! i)) = ancestors (pls ! i)
           \<and> proto_presents (rs ! i)
               = map is_right_child (drop 1 (ancestors (pls ! i)) @ [pls ! i])
           \<and> proto_presents (rs ! i) = pls ! i" if i: "i < length x" for i
  proof -
    have it: "i < length tuples" using i lt by simp
    have "tuples ! i = (x ! i, pls ! i, dists ! i, pts ! i)"
      using i l1 l2 l3 by (simp add: tuples_def dists_def pts_def)
    then have f: "fst (snd (tuples ! i)) = pls ! i" by simp
    from nth [OF it] have a: "leaf (rs ! i) = pls ! i"
      "map internal_node (ancestor_similarities (rs ! i)) = ancestors (pls ! i)"
      unfolding f by simp_all
    have "pls ! i \<in> set (leaves (tree_root (tree_section self)))"
      using lv i l1 by (auto simp: subset_iff)
    moreover have "is_internal (tree_root (tree_section self))"
      using ok by (simp add: section_ok_def)
    ultimately have ne: "pls ! i \<noteq> []"
      by (cases "tree_root (tree_section self)") (auto simp: is_internal_def)
    have "proto_presents (rs ! i)
        = map is_right_child (drop 1 (map internal_node (ancestor_similarities (rs ! i)))
            @ [leaf (rs ! i)])"
      by (simp add: proto_presents_def Let_def drop_map)
    then have pp: "proto_presents (rs ! i)
        = map is_right_child (drop 1 (ancestors (pls ! i)) @ [pls ! i])"
      unfolding a .
    also have "\<dots> = pls ! i" using ne by (rule next_on_path_is_the_turn)
    finally show ?thesis using a pp by simp
  qed
  show ?thesis
  proof (intro exI conjI)
    show "ProtoTree_rationalize bp self x pls = Inr rs" using run0 run by simp
    show "length rs = length x" using len lt by simp
    show "\<forall>i<length x. leaf (rs ! i) = pls ! i
           \<and> map internal_node (ancestor_similarities (rs ! i)) = ancestors (pls ! i)
           \<and> proto_presents (rs ! i)
               = map is_right_child (drop 1 (ancestors (pls ! i)) @ [pls ! i])
           \<and> proto_presents (rs ! i) = pls ! i" using c3 by blast
  qed
qed

text \<open>
  \<open>ProtoTree.rationalize\<close> of \<open>prototree/models.py\<close>, whenever it returns, returns as
  many rationalizations as the leaves of the zipped tuples have ancestors in total: \<open>D\<close>
  per (image, leaf) pair in a tree of depth \<open>D\<close>.
\<close>

lemma prototree_rationalize_inner_length:
  "prototree_rationalize_inner bp pl ts x_i lf dists_i patches_i ref ancs (heap, rats)
     = Inr (heap', rats')
   \<Longrightarrow> length rats' = length rats + length ancs"
proof (induction ancs arbitrary: heap rats)
  case Nil
  then show ?case by simp
next
  case (Cons a ancs)
  from Cons.prems obtain similarity where
    "prototree_rationalize_inner bp pl ts x_i lf dists_i patches_i ref ancs
       (heap[ref := heap ! ref @ [similarity]],
        rats @ [\<lparr>ancestor_similarities_ref = ref, label = pl (leaf_store ts lf)\<rparr>])
     = Inr (heap', rats')"
    by (auto split: sum.splits)
  from Cons.IH [OF this] show ?case by simp
qed

lemma prototree_rationalize_outer_length:
  "prototree_rationalize_outer bp pl ts tuples (heap, rats) = Inr (heap', rats')
   \<Longrightarrow> length rats' = length rats + sum_list (map (\<lambda>tp. length (fst (snd tp))) tuples)"
proof (induction tuples arbitrary: heap rats)
  case Nil
  then show ?case by simp
next
  case (Cons tp tuples)
  obtain x_i lf dists_i patches_i where e: "tp = (x_i, lf, dists_i, patches_i)"
    by (cases tp) auto
  from Cons.prems obtain heap1 rats1 where
    inner: "prototree_rationalize_inner bp pl ts x_i lf dists_i patches_i (length heap)
        (ancestors lf) (heap @ [[]], rats) = Inr (heap1, rats1)"
    and outer: "prototree_rationalize_outer bp pl ts tuples (heap1, rats1) = Inr (heap', rats')"
    unfolding e by (auto split: sum.splits)
  have "length rats1 = length rats + length (ancestors lf)"
    using inner by (rule prototree_rationalize_inner_length)
  moreover have "length rats' = length rats1
      + sum_list (map (\<lambda>tp. length (fst (snd tp))) tuples)"
    using outer by (rule Cons.IH)
  ultimately show ?case by (simp add: e ancestors_def)
qed

lemma prototree_rationalize_length:
  assumes "prototree_rationalize bp pl base ts x pls = Inr rs"
  shows "length rs = sum_list (map (\<lambda>tp. length (fst (snd tp)))
           (zip x (zip pls (zip (distances base x) (patches base x)))))"
proof -
  from assms obtain heap rats where
    run: "prototree_rationalize_outer bp pl ts
        (zip x (zip pls (zip (distances base x) (patches base x)))) ([], []) = Inr (heap, rats)"
    and rs: "rs = map (\<lambda>r. (heap ! ancestor_similarities_ref r, label r)) rats"
    by (auto simp: prototree_rationalize_def Let_def split: sum.splits)
  from prototree_rationalize_outer_length [OF run] show ?thesis by (simp add: rs)
qed

section \<open>Rationalization on the depth-two model\<close>

lemma ancestors_example: "ancestors [False, True] = [[], [False]]"
  by (simp add: ancestors_Cons ancestors_Nil)

lemma depth_two_similarity_root:
  "ancestor_similarity example_best_patch depth_two_section 0 [10, 11, 12] () []
     = Inr \<lparr>internal_node = [], evidence = 10\<rparr>"
  by (simp add: ancestor_similarity_def depth_two_section_def img_proto_similarity_def
      example_best_patch_def)

lemma depth_two_similarity_left:
  "ancestor_similarity example_best_patch depth_two_section 0 [10, 11, 12] () [False]
     = Inr \<lparr>internal_node = [False], evidence = 11\<rparr>"
  by (simp add: ancestor_similarity_def depth_two_section_def img_proto_similarity_def
      example_best_patch_def)

text \<open>
  C2. \<open>ProtoTree.rationalize\<close> of \<open>prototree/models.py\<close> does not return one
  rationalization per (image, leaf) pair: it appends one inside the loop over the
  ancestors. For the depth-two tree, one image and the leaf left-right it returns two
  rationalizations (both holding the same list of two evidence entries), where the version
  of \<open>proto/models.py\<close> returns one.
\<close>

theorem prototree_rationalize_appends_per_ancestor:
  "prototree_rationalize example_best_patch example_predicted_label
     (proto_base depth_two_model) depth_two_section [0] [[False, True]]
   = Inr [([\<lparr>internal_node = [], evidence = 10\<rparr>, \<lparr>internal_node = [False], evidence = 11\<rparr>], 0),
          ([\<lparr>internal_node = [], evidence = 10\<rparr>, \<lparr>internal_node = [False], evidence = 11\<rparr>], 0)]
   \<and> ProtoTree_rationalize example_best_patch depth_two_model [0] [[False, True]]
   = Inr [\<lparr>ancestor_similarities =
              [\<lparr>internal_node = [], evidence = 10\<rparr>, \<lparr>internal_node = [False], evidence = 11\<rparr>],
            leaf = [False, True]\<rparr>]"
proof (intro conjI)
  show "prototree_rationalize example_best_patch example_predicted_label
     (proto_base depth_two_model) depth_two_section [0] [[False, True]]
   = Inr [([\<lparr>internal_node = [], evidence = 10\<rparr>, \<lparr>internal_node = [False], evidence = 11\<rparr>], 0),
          ([\<lparr>internal_node = [], evidence = 10\<rparr>, \<lparr>internal_node = [False], evidence = 11\<rparr>], 0)]"
    by (simp add: prototree_rationalize_def depth_two_model_def ancestors_example
        depth_two_similarity_root depth_two_similarity_left example_predicted_label_def)
  show "ProtoTree_rationalize example_best_patch depth_two_model [0] [[False, True]]
   = Inr [\<lparr>ancestor_similarities =
              [\<lparr>internal_node = [], evidence = 10\<rparr>, \<lparr>internal_node = [False], evidence = 11\<rparr>],
            leaf = [False, True]\<rparr>]"
    by (simp add: ProtoTree_rationalize_def depth_two_model_def ancestors_example
        depth_two_similarity_root depth_two_similarity_left)
qed

end
